theory Spec2Isabelle
  imports Main "HOL-Library.Char_ord" "HOL-Library.List_Lexorder" "HOL-Library.Multiset"
begin

section \<open>Values\<close>

text \<open>
  Items, token payloads, arguments and stored records are JSON values. A JavaScript string
  is represented by the bytes of its UTF-8 encoding (\<open>string\<close> is a list of 8-bit
  characters). A number written without fraction and exponent is an integer, kept exactly
  (JavaScript rounds an integer beyond \<open>2^53\<close> to a double and prints exponent form from
  \<open>10^21\<close> on; such numbers are outside this model); a number written with a fraction or an
  exponent is kept as its literal (\<open>JFloat\<close>), its double value is not modelled. An object is
  the list of its members in insertion order.
\<close>

datatype json =
    JNull
  | JBool bool
  | JNum int
  | JFloat string
  | JStr string
  | JArr "json list"
  | JObj "(string \<times> json) list"

type_synonym object = "(string \<times> json) list"

text \<open>Every \<open>throw\<close> of the sources raises a plain \<open>Error\<close> with a message; \<open>JSON.parse\<close>
  raises a \<open>SyntaxError\<close>, reading a property of \<open>undefined\<close> a \<open>TypeError\<close> (their messages
  are the engine's own and are left empty here).\<close>

datatype js_error = Error string | SyntaxError string | TypeError string

text \<open>Property read \<open>o[k]\<close> (\<open>None\<close> is \<open>undefined\<close>) and property write \<open>o[k] = v\<close>: an
  existing member keeps its place, a new one goes last.\<close>

fun obj_get :: "object \<Rightarrow> string \<Rightarrow> json option" where
  "obj_get [] k = None"
| "obj_get ((k', v) # kvs) k = (if k' = k then Some v else obj_get kvs k)"

fun obj_set :: "object \<Rightarrow> string \<Rightarrow> json \<Rightarrow> object" where
  "obj_set [] k v = [(k, v)]"
| "obj_set ((k', v') # kvs) k v = (if k' = k then (k, v) # kvs else (k', v') # obj_set kvs k v)"

text \<open>\<open>x.k\<close> on any value: only objects have members here (\<open>undefined\<close> otherwise).\<close>

fun get_prop :: "json \<Rightarrow> string \<Rightarrow> json option" where
  "get_prop (JObj kvs) k = obj_get kvs k"
| "get_prop _ k = None"

subsection \<open>Decimal numerals\<close>

definition is_digit :: "char \<Rightarrow> bool" where
  "is_digit c \<longleftrightarrow> 48 \<le> (of_char c :: nat) \<and> (of_char c :: nat) \<le> 57"

text \<open>\<open>Boolean(x)\<close>. A number literal is zero when its mantissa has no digit other than 0.\<close>

fun truthy :: "json \<Rightarrow> bool" where
  "truthy JNull = False"
| "truthy (JBool b) = b"
| "truthy (JNum n) = (n \<noteq> 0)"
| "truthy (JFloat lit) =
     list_ex (\<lambda>c. is_digit c \<and> c \<noteq> CHR ''0'')
       (takeWhile (\<lambda>c. c \<noteq> CHR ''e'' \<and> c \<noteq> CHR ''E'') lit)"
| "truthy (JStr s) = (s \<noteq> [])"
| "truthy _ = True"

definition digit_char :: "nat \<Rightarrow> char" where
  "digit_char n = char_of (48 + n)"

definition digit_val :: "char \<Rightarrow> nat" where
  "digit_val c = of_char c - 48"

fun dec_nat :: "nat \<Rightarrow> string" where
  "dec_nat n = (if n < 10 then [digit_char n] else dec_nat (n div 10) @ [digit_char (n mod 10)])"

declare dec_nat.simps [simp del]

definition nat_of_digits :: "string \<Rightarrow> nat" where
  "nat_of_digits ds = foldl (\<lambda>a c. 10 * a + digit_val c) 0 ds"

text \<open>\<open>String(n)\<close> for an integer \<open>n\<close>.\<close>

definition Number_toString :: "int \<Rightarrow> string" where
  "Number_toString i = (if i < 0 then CHR ''-'' # dec_nat (nat (- i)) else dec_nat (nat i))"

section \<open>JSON text\<close>

text \<open>
  \<open>JSON.stringify\<close> and \<open>JSON.parse\<close> of the platform, on the values above. The characters
  \<open>CHR 0x22\<close> and \<open>CHR 0x5C\<close> are the double quote and the backslash.
\<close>

definition hex_char :: "nat \<Rightarrow> char" where
  "hex_char n = (if n < 10 then char_of (48 + n) else char_of (87 + n))"

definition hex_val :: "char \<Rightarrow> nat option" where
  "hex_val c =
     (let n = (of_char c :: nat) in
      if 48 \<le> n \<and> n \<le> 57 then Some (n - 48)
      else if 97 \<le> n \<and> n \<le> 102 then Some (n - 87)
      else if 65 \<le> n \<and> n \<le> 70 then Some (n - 55)
      else None)"

definition escape_char :: "char \<Rightarrow> string" where
  "escape_char c =
     (let n = (of_char c :: nat) in
      if c = CHR 0x22 then [CHR 0x5C, CHR 0x22]
      else if c = CHR 0x5C then [CHR 0x5C, CHR 0x5C]
      else if n = 8 then [CHR 0x5C, CHR ''b'']
      else if n = 12 then [CHR 0x5C, CHR ''f'']
      else if n = 10 then [CHR 0x5C, CHR ''n'']
      else if n = 13 then [CHR 0x5C, CHR ''r'']
      else if n = 9 then [CHR 0x5C, CHR ''t'']
      else if n < 32 then [CHR 0x5C, CHR ''u'', CHR ''0'', CHR ''0'', hex_char (n div 16), hex_char (n mod 16)]
      else [c])"

definition quote :: "string \<Rightarrow> string" where
  "quote s = CHR 0x22 # concat (map escape_char s) @ [CHR 0x22]"

fun join_comma :: "string list \<Rightarrow> string" where
  "join_comma [] = []"
| "join_comma [x] = x"
| "join_comma (x # y # ys) = x @ CHR '','' # join_comma (y # ys)"

fun JSON_stringify :: "json \<Rightarrow> string" where
  "JSON_stringify JNull = ''null''"
| "JSON_stringify (JBool b) = (if b then ''true'' else ''false'')"
| "JSON_stringify (JNum n) = Number_toString n"
| "JSON_stringify (JFloat lit) = lit"
| "JSON_stringify (JStr s) = quote s"
| "JSON_stringify (JArr xs) = CHR ''['' # join_comma (map JSON_stringify xs) @ '']''"
| "JSON_stringify (JObj kvs) =
     CHR ''{'' # join_comma (map (\<lambda>(k, v). quote k @ CHR '':'' # JSON_stringify v) kvs) @ ''}''"

text \<open>The parser. A \<open>\u\<close> escape above the ASCII range yields the UTF-8 bytes of its code
  unit (surrogate pairs are not combined).\<close>

definition is_ws :: "char \<Rightarrow> bool" where
  "is_ws c \<longleftrightarrow> (of_char c :: nat) \<in> {32, 9, 10, 13}"

definition skip_ws :: "string \<Rightarrow> string" where
  "skip_ws s = dropWhile is_ws s"

definition utf8_of_unit :: "nat \<Rightarrow> string" where
  "utf8_of_unit n =
     (if n < 128 then [char_of n]
      else if n < 2048 then [char_of (192 + n div 64), char_of (128 + n mod 64)]
      else [char_of (224 + n div 4096), char_of (128 + (n div 64) mod 64), char_of (128 + n mod 64)])"

definition hex4 :: "char \<Rightarrow> char \<Rightarrow> char \<Rightarrow> char \<Rightarrow> nat option" where
  "hex4 a b c d =
     (case (hex_val a, hex_val b, hex_val c, hex_val d) of
        (Some p, Some q, Some r, Some s) \<Rightarrow> Some (((p * 16 + q) * 16 + r) * 16 + s)
      | _ \<Rightarrow> None)"

definition unescape :: "char \<Rightarrow> char option" where
  "unescape e =
     (if e = CHR 0x22 \<or> e = CHR 0x5C \<or> e = CHR ''/'' then Some e
      else if e = CHR ''b'' then Some (char_of (8::nat))
      else if e = CHR ''f'' then Some (char_of (12::nat))
      else if e = CHR ''n'' then Some (char_of (10::nat))
      else if e = CHR ''r'' then Some (char_of (13::nat))
      else if e = CHR ''t'' then Some (char_of (9::nat))
      else None)"

text \<open>\<open>parse_string\<close> reads a string literal after its opening quote.\<close>

fun parse_string :: "string \<Rightarrow> (string \<times> string) option" where
  "parse_string [] = None"
| "parse_string (c # cs) =
     (if c = CHR 0x22 then Some ([], cs)
      else if c = CHR 0x5C then
        (case cs of
           [] \<Rightarrow> None
         | e # r \<Rightarrow>
             if e = CHR ''u'' then
               (case r of
                  a # b # c' # d # r' \<Rightarrow>
                    (case hex4 a b c' d of
                       None \<Rightarrow> None
                     | Some n \<Rightarrow> map_option (\<lambda>(s, t). (utf8_of_unit n @ s, t)) (parse_string r'))
                | _ \<Rightarrow> None)
             else
               (case unescape e of
                  None \<Rightarrow> None
                | Some ch \<Rightarrow> map_option (\<lambda>(s, t). (ch # s, t)) (parse_string r)))
      else if (of_char c :: nat) < 32 then None
      else map_option (\<lambda>(s, t). (c # s, t)) (parse_string cs))"

definition parse_frac :: "string \<Rightarrow> (string \<times> string) option" where
  "parse_frac r =
     (case r of
        [] \<Rightarrow> Some ([], r)
      | c # r' \<Rightarrow>
          if c = CHR ''.'' then
            (if takeWhile is_digit r' = [] then None
             else Some (c # takeWhile is_digit r', dropWhile is_digit r'))
          else Some ([], r))"

definition parse_exp :: "string \<Rightarrow> (string \<times> string) option" where
  "parse_exp r =
     (case r of
        [] \<Rightarrow> Some ([], r)
      | e # r' \<Rightarrow>
          if e = CHR ''e'' \<or> e = CHR ''E'' then
            (let (sg, r'') = (case r' of
                                [] \<Rightarrow> ([], r')
                              | c # t \<Rightarrow> if c = CHR ''+'' \<or> c = CHR ''-'' then ([c], t) else ([], r'))
             in if takeWhile is_digit r'' = [] then None
                else Some (e # sg @ takeWhile is_digit r'', dropWhile is_digit r''))
          else Some ([], r))"

definition parse_number :: "string \<Rightarrow> (json \<times> string) option" where
  "parse_number s =
     (let (neg, s1) = (case s of [] \<Rightarrow> (False, s) | c # r \<Rightarrow> if c = CHR ''-'' then (True, r) else (False, s));
          ds = takeWhile is_digit s1;
          r1 = dropWhile is_digit s1
      in if ds = [] \<or> (hd ds = CHR ''0'' \<and> 1 < length ds) then None
         else
           (case parse_frac r1 of
              None \<Rightarrow> None
            | Some (fr, r2) \<Rightarrow>
                (case parse_exp r2 of
                   None \<Rightarrow> None
                 | Some (ex, r3) \<Rightarrow>
                     if fr = [] \<and> ex = []
                     then Some (JNum (if neg then - int (nat_of_digits ds) else int (nat_of_digits ds)), r3)
                     else Some (JFloat ((if neg then ''-'' else []) @ ds @ fr @ ex), r3))))"

datatype 'a presult = OutOfFuel | Fail | Ok 'a string

fun parse_value :: "nat \<Rightarrow> string \<Rightarrow> json presult"
  and parse_elements :: "nat \<Rightarrow> string \<Rightarrow> (json list) presult"
  and parse_members :: "nat \<Rightarrow> string \<Rightarrow> ((string \<times> json) list) presult"
where
  "parse_value 0 s = OutOfFuel"
| "parse_value (Suc n) s =
     (case s of
        [] \<Rightarrow> Fail
      | c # r \<Rightarrow>
          if c = CHR ''{'' then
            (case skip_ws r of
               [] \<Rightarrow> Fail
             | c' # r' \<Rightarrow>
                 if c' = CHR ''}'' then Ok (JObj []) r'
                 else (case parse_members n (c' # r') of
                         Ok kvs t \<Rightarrow> Ok (JObj (foldl (\<lambda>acc (k, v). obj_set acc k v) [] kvs)) t
                       | Fail \<Rightarrow> Fail
                       | OutOfFuel \<Rightarrow> OutOfFuel))
          else if c = CHR ''['' then
            (case skip_ws r of
               [] \<Rightarrow> Fail
             | c' # r' \<Rightarrow>
                 if c' = CHR '']'' then Ok (JArr []) r'
                 else (case parse_elements n (c' # r') of
                         Ok vs t \<Rightarrow> Ok (JArr vs) t
                       | Fail \<Rightarrow> Fail
                       | OutOfFuel \<Rightarrow> OutOfFuel))
          else if c = CHR 0x22 then
            (case parse_string r of None \<Rightarrow> Fail | Some (str, t) \<Rightarrow> Ok (JStr str) t)
          else if take 4 s = ''true'' then Ok (JBool True) (drop 4 s)
          else if take 5 s = ''false'' then Ok (JBool False) (drop 5 s)
          else if take 4 s = ''null'' then Ok JNull (drop 4 s)
          else (case parse_number s of None \<Rightarrow> Fail | Some (v, t) \<Rightarrow> Ok v t))"
| "parse_elements 0 s = OutOfFuel"
| "parse_elements (Suc n) s =
     (case parse_value n s of
        OutOfFuel \<Rightarrow> OutOfFuel
      | Fail \<Rightarrow> Fail
      | Ok v r \<Rightarrow>
          (case skip_ws r of
             [] \<Rightarrow> Fail
           | c # r' \<Rightarrow>
               if c = CHR '']'' then Ok [v] r'
               else if c = CHR '','' then
                 (case parse_elements n (skip_ws r') of
                    Ok vs t \<Rightarrow> Ok (v # vs) t
                  | Fail \<Rightarrow> Fail
                  | OutOfFuel \<Rightarrow> OutOfFuel)
               else Fail))"
| "parse_members 0 s = OutOfFuel"
| "parse_members (Suc n) s =
     (case s of
        [] \<Rightarrow> Fail
      | q # r \<Rightarrow>
          if q \<noteq> CHR 0x22 then Fail
          else
            (case parse_string r of
               None \<Rightarrow> Fail
             | Some (k, r1) \<Rightarrow>
                 (case skip_ws r1 of
                    [] \<Rightarrow> Fail
                  | c # r2 \<Rightarrow>
                      if c \<noteq> CHR '':'' then Fail
                      else
                        (case parse_value n (skip_ws r2) of
                           OutOfFuel \<Rightarrow> OutOfFuel
                         | Fail \<Rightarrow> Fail
                         | Ok v r3 \<Rightarrow>
                             (case skip_ws r3 of
                                [] \<Rightarrow> Fail
                              | c' # r4 \<Rightarrow>
                                  if c' = CHR ''}'' then Ok [(k, v)] r4
                                  else if c' = CHR '','' then
                                    (case parse_members n (skip_ws r4) of
                                       Ok kvs t \<Rightarrow> Ok ((k, v) # kvs) t
                                     | Fail \<Rightarrow> Fail
                                     | OutOfFuel \<Rightarrow> OutOfFuel)
                                  else Fail)))))"

text \<open>\<open>JSON.parse(text)\<close>: one value, white space around it, nothing else. Every call
  of the parser uses one unit of fuel and reads at least one character of every two calls,
  so the parser is given \<open>2 * length text + 1\<close> units.\<close>

definition JSON_parse :: "string \<Rightarrow> js_error + json" where
  "JSON_parse text =
     (case parse_value (2 * length text + 1) (skip_ws text) of
        Ok v r \<Rightarrow> if skip_ws r = [] then Inr v else Inl (SyntaxError [])
      | _ \<Rightarrow> Inl (SyntaxError []))"

section \<open>Continuation tokens\<close>

text \<open>
  A buffer is a list of bytes. Since a string is held as its UTF-8 bytes,
  \<open>Buffer.from(s, 'utf8')\<close> and \<open>buf.toString('utf8')\<close> do not change the list (the
  replacement of ill-formed sequences by U+FFFD when decoding is not modelled; \<open>JSON.parse\<close>
  treats every character beyond ASCII alike). \<open>base64url\<close> writes three bytes as four
  characters of the URL-safe alphabet, without padding; reading it back, Node skips every
  character outside the two base64 alphabets and stops at \<open>=\<close>.
\<close>

type_synonym buffer = "char list"

definition Buffer_from_utf8 :: "string \<Rightarrow> buffer" where
  "Buffer_from_utf8 s = s"

definition Buffer_toString_utf8 :: "buffer \<Rightarrow> string" where
  "Buffer_toString_utf8 b = b"

definition b64_char :: "nat \<Rightarrow> char" where
  "b64_char n =
     (if n < 26 then char_of (65 + n)
      else if n < 52 then char_of (71 + n)
      else if n < 62 then char_of (n - 4)
      else if n = 62 then CHR ''-''
      else CHR ''_'')"

definition unbase64 :: "char \<Rightarrow> nat option" where
  "unbase64 c =
     (let n = (of_char c :: nat) in
      if 65 \<le> n \<and> n \<le> 90 then Some (n - 65)
      else if 97 \<le> n \<and> n \<le> 122 then Some (n - 71)
      else if 48 \<le> n \<and> n \<le> 57 then Some (n + 4)
      else if c = CHR ''-'' \<or> c = CHR ''+'' then Some 62
      else if c = CHR ''_'' \<or> c = CHR ''/'' then Some 63
      else None)"

fun sextets :: "buffer \<Rightarrow> nat list" where
  "sextets [] = []"
| "sextets [a] = [of_char a div 4, (of_char a mod 4) * 16]"
| "sextets [a, b] =
     [of_char a div 4, (of_char a mod 4) * 16 + of_char b div 16, (of_char b mod 16) * 4]"
| "sextets (a # b # c # r) =
     [of_char a div 4, (of_char a mod 4) * 16 + of_char b div 16,
      (of_char b mod 16) * 4 + of_char c div 64, of_char c mod 64] @ sextets r"

fun unsextets :: "nat list \<Rightarrow> buffer" where
  "unsextets [] = []"
| "unsextets [p] = []"
| "unsextets [p, q] = [char_of (p * 4 + q div 16)]"
| "unsextets [p, q, r] = [char_of (p * 4 + q div 16), char_of ((q mod 16) * 16 + r div 4)]"
| "unsextets (p # q # r # s # rest) =
     [char_of (p * 4 + q div 16), char_of ((q mod 16) * 16 + r div 4),
      char_of ((r mod 4) * 64 + s)] @ unsextets rest"

definition Buffer_toString_base64url :: "buffer \<Rightarrow> string" where
  "Buffer_toString_base64url b = map b64_char (sextets b)"

definition Buffer_from_base64url :: "string \<Rightarrow> buffer" where
  "Buffer_from_base64url s =
     unsextets (List.map_filter unbase64 (takeWhile (\<lambda>c. c \<noteq> CHR ''='') s))"

text \<open>\<open>token.ts\<close>: \<open>encodeToken\<close> and \<open>decodeToken\<close>. Whatever is thrown inside the
  \<open>try\<close> is replaced by \<open>new Error('Invalid token')\<close>.\<close>

definition encodeToken :: "json \<Rightarrow> string" where
  "encodeToken obj =
     (let json = JSON_stringify obj in Buffer_toString_base64url (Buffer_from_utf8 json))"

definition decodeToken :: "string \<Rightarrow> js_error + json" where
  "decodeToken token =
     (let json = Buffer_toString_utf8 (Buffer_from_base64url token) in
      case JSON_parse json of
        Inl err \<Rightarrow> Inl (Error ''Invalid token'')
      | Inr v \<Rightarrow> Inr v)"

section \<open>Streams of items\<close>

text \<open>
  The stages of a pipeline hand each other async iterables. A stream is read item by item:
  asking it for the next item runs its producer up to the next \<open>yield\<close>, which may change
  the world \<open>'w\<close>, and the answer is that the stream is done, that it throws, or an item
  together with the rest of the stream. Nothing of a generator runs before its first item is
  asked for, and an error in its body is raised where the stream is read. Every stream here
  ends after finitely many items (one that never ends is not represented), and a stream has
  one reader.
\<close>

datatype 'w stream = Stream "'w \<Rightarrow> 'w pulled"
and 'w pulled = Done 'w | Throw js_error 'w | Yield json "'w stream" 'w

text \<open>\<open>for await (const item of stream) items.push(item)\<close>, which is \<open>collectItems\<close> of
  \<open>sdk/runtime.ts\<close>: all the items, or the error that reading raised (the items read so far are
  lost with it).\<close>

primrec collectItems :: "'w stream \<Rightarrow> 'w \<Rightarrow> (js_error + json list) \<times> 'w"
  and collect_pulled :: "'w pulled \<Rightarrow> (js_error + json list) \<times> 'w" where
  "collectItems (Stream next) w = collect_pulled (next w)"
| "collect_pulled (Done w) = (Inr [], w)"
| "collect_pulled (Throw e w) = (Inl e, w)"
| "collect_pulled (Yield x rest w) =
     (case collectItems rest w of
        (Inl e, w') \<Rightarrow> (Inl e, w')
      | (Inr xs, w') \<Rightarrow> (Inr (x # xs), w'))"

text \<open>\<open>async function* emptyStream() {}\<close>, and the generator that yields the elements of an
  array (\<open>asStream\<close> of \<open>approve.ts\<close>, \<open>streamOf\<close> of \<open>llm_task_invoke.ts\<close>, and what reading an
  array with \<open>for await\<close> amounts to).\<close>

definition emptyStream :: "'w stream" where
  "emptyStream = Stream Done"

primrec asStream :: "json list \<Rightarrow> 'w stream" where
  "asStream [] = Stream Done"
| "asStream (x # xs) = Stream (Yield x (asStream xs))"

section \<open>The stage contract and the two pipeline runners\<close>

text \<open>
  A stage may have effects: it takes the state of the world \<open>'w\<close> and returns the new one.
  What \<open>run\<close> resolves to is \<open>undefined\<close> (\<open>None\<close>) or an object with the optional members
  \<open>output\<close> (here \<open>stage_output\<close>; an array given as output is the stream of its elements),
  \<open>halt\<close> and \<open>rendered\<close>. Besides their result the runners return the indices of the stages
  they have called, in the order of the calls, and the world they leave.
\<close>

record 'w stage_result =
  stage_output :: "'w stream option"
  halt :: bool
  rendered :: bool

record stdin_stream =
  isTTY :: bool
  data :: string

record ctx =
  mode :: string
  env :: "string \<rightharpoonup> string"
  stdin :: "stdin_stream option"
  stateDir :: "string option"

record pipeline_result =
  items :: "json list"
  halted :: bool
  haltedAt :: "nat option"

definition result_halt :: "'w stage_result option \<Rightarrow> bool" where
  "result_halt result = (case result of None \<Rightarrow> False | Some r \<Rightarrow> halt r)"

definition result_rendered :: "'w stage_result option \<Rightarrow> bool" where
  "result_rendered result = (case result of None \<Rightarrow> False | Some r \<Rightarrow> rendered r)"

text \<open>\<open>result?.output ?? emptyStream()\<close>.\<close>

definition result_output :: "'w stage_result option \<Rightarrow> 'w stream" where
  "result_output result =
     (case result of
        None \<Rightarrow> emptyStream
      | Some r \<Rightarrow> (case stage_output r of None \<Rightarrow> emptyStream | Some s \<Rightarrow> s))"

subsection \<open>\<open>src/runtime.ts\<close>: the runner of the command line\<close>

text \<open>A command whose \<open>run\<close> never settles answers \<open>None\<close>; then the runner never settles
  either.\<close>

record pipeline_stage =
  name :: string
  args :: object

type_synonym 'w command =
  "'w stream \<Rightarrow> object \<Rightarrow> ctx \<Rightarrow> 'w \<Rightarrow> ((js_error + 'w stage_result option) \<times> 'w) option"

type_synonym 'w registry = "string \<rightharpoonup> 'w command"

record cli_result = pipeline_result +
  any_rendered :: bool

text \<open>The \<open>for\<close> loop of \<open>runPipeline\<close> from index \<open>idx\<close> on. It leaves the stream that is
  still to be read, \<open>rendered\<close> and \<open>haltedAt\<close>.\<close>

fun runPipeline_loop ::
  "'w registry \<Rightarrow> ctx \<Rightarrow> nat \<Rightarrow> pipeline_stage list \<Rightarrow> 'w stream \<Rightarrow> bool \<Rightarrow> nat list \<Rightarrow> 'w
   \<Rightarrow> ((js_error + 'w stream \<times> bool \<times> nat option) \<times> nat list \<times> 'w) option" where
  "runPipeline_loop registry cx idx [] stream rend tr w = Some (Inr (stream, rend, None), tr, w)"
| "runPipeline_loop registry cx idx (stage # rest) stream rend tr w =
     (case registry (name stage) of
        None \<Rightarrow> Some (Inl (Error (''Unknown command: '' @ name stage)), tr, w)
      | Some command \<Rightarrow>
          (case command stream (args stage) cx w of
             None \<Rightarrow> None
           | Some (Inl e, w') \<Rightarrow> Some (Inl e, tr @ [idx], w')
           | Some (Inr result, w') \<Rightarrow>
               if result_halt result
               then Some (Inr (result_output result, rend \<or> result_rendered result, Some idx),
                          tr @ [idx], w')
               else runPipeline_loop registry cx (Suc idx) rest (result_output result)
                      (rend \<or> result_rendered result) (tr @ [idx]) w'))"

text \<open>After the loop the items of the stream it left are collected.\<close>

definition runPipeline ::
  "pipeline_stage list \<Rightarrow> 'w registry \<Rightarrow> ctx \<Rightarrow> 'w stream option \<Rightarrow> 'w
   \<Rightarrow> ((js_error + cli_result) \<times> nat list \<times> 'w) option" where
  "runPipeline pipeline registry cx input w =
     (case runPipeline_loop registry cx 0 pipeline
             (case input of None \<Rightarrow> emptyStream | Some s \<Rightarrow> s) False [] w of
        None \<Rightarrow> None
      | Some (Inl e, tr, w') \<Rightarrow> Some (Inl e, tr, w')
      | Some (Inr (stream, rend, at), tr, w') \<Rightarrow>
          (case collectItems stream w' of
             (Inl e, w'') \<Rightarrow> Some (Inl e, tr, w'')
           | (Inr items', w'') \<Rightarrow>
               Some (Inr \<lparr>items = items', halted = (at \<noteq> None), haltedAt = at,
                          any_rendered = rend\<rparr>, tr, w'')))"

subsection \<open>\<open>sdk/runtime.ts\<close>: the runner of the SDK\<close>

text \<open>
  What is turned into a stream is a plain value or an async iterable. A stage of the SDK is
  a plain function (called with the collected items; what it returns is turned into a
  stream), a generator function (calling it runs nothing: it is given the stream and its
  stream is the output), an object with a \<open>run\<close> method, or none of these.
\<close>

datatype 'w source = Value "json option" | AsyncIterable "'w stream"

datatype 'w stage =
    Fn "json list \<Rightarrow> ctx \<Rightarrow> 'w \<Rightarrow> (js_error + 'w source) \<times> 'w"
  | GenFn "'w stream \<Rightarrow> ctx \<Rightarrow> 'w stream"
  | StageObj "'w stream \<Rightarrow> ctx \<Rightarrow> 'w \<Rightarrow> (js_error + 'w stage_result option) \<times> 'w"
  | NotAStage

text \<open>A string is iterated by code points: in UTF-8, a byte and the continuation bytes
  (\<open>0x80\<close> to \<open>0xBF\<close>) that follow it.\<close>

definition is_continuation :: "char \<Rightarrow> bool" where
  "is_continuation c \<longleftrightarrow> 128 \<le> (of_char c :: nat) \<and> (of_char c :: nat) < 192"

function code_points :: "string \<Rightarrow> string list" where
  "code_points [] = []"
| "code_points (c # cs) =
     (c # takeWhile is_continuation cs) # code_points (dropWhile is_continuation cs)"
  by pat_completeness auto
termination
  by (relation "measure length") (auto simp: length_dropWhile_le less_Suc_eq_le)

text \<open>\<open>toAsyncIterable\<close>: nothing for \<open>null\<close> and \<open>undefined\<close>, the elements of an array,
  an async iterable as it is, the code points of a string (it is iterable), the value itself
  otherwise.\<close>

definition toAsyncIterable :: "'w source \<Rightarrow> 'w stream" where
  "toAsyncIterable input =
     (case input of
        Value None \<Rightarrow> emptyStream
      | Value (Some JNull) \<Rightarrow> emptyStream
      | Value (Some (JArr xs)) \<Rightarrow> asStream xs
      | AsyncIterable s \<Rightarrow> s
      | Value (Some (JStr s)) \<Rightarrow> asStream (map JStr (code_points s))
      | Value (Some v) \<Rightarrow> asStream [v])"

text \<open>A parameter with the default value \<open>[]\<close>.\<close>

fun or_empty_array :: "'w source \<Rightarrow> 'w source" where
  "or_empty_array (Value None) = Value (Some (JArr []))"
| "or_empty_array input = input"

text \<open>The body of the loop first works out \<open>result\<close> from the kind of the stage
  (\<open>call_stage\<close>, which also notes the call), then looks at \<open>result?.halt\<close>. A plain function is
  called once the stream has been read to its end, and not at all when reading throws; what
  is not a stage is not called, the error is thrown at once.\<close>

fun call_stage ::
  "'w stage \<Rightarrow> nat \<Rightarrow> 'w stream \<Rightarrow> ctx \<Rightarrow> nat list \<Rightarrow> 'w
   \<Rightarrow> (js_error + 'w stage_result option) \<times> nat list \<times> 'w" where
  "call_stage (Fn f) idx stream cx tr w =
     (case collectItems stream w of
        (Inl e, w1) \<Rightarrow> (Inl e, tr, w1)
      | (Inr items', w1) \<Rightarrow>
          (case f items' cx w1 of
             (Inl e, w2) \<Rightarrow> (Inl e, tr @ [idx], w2)
           | (Inr out, w2) \<Rightarrow>
               (Inr (Some \<lparr>stage_output = Some (toAsyncIterable out), halt = False,
                            rendered = False\<rparr>), tr @ [idx], w2)))"
| "call_stage (GenFn g) idx stream cx tr w =
     (Inr (Some \<lparr>stage_output = Some (g stream cx), halt = False, rendered = False\<rparr>),
      tr @ [idx], w)"
| "call_stage (StageObj run) idx stream cx tr w =
     (case run stream cx w of (result, w') \<Rightarrow> (result, tr @ [idx], w'))"
| "call_stage NotAStage idx stream cx tr w =
     (Inl (Error (''Invalid stage at index '' @ dec_nat idx
                  @ '': must be a function or have run() method'')), tr, w)"

text \<open>The \<open>for\<close> loop of \<open>runPipelineInternal\<close> from index \<open>idx\<close> on. It leaves the stream
  that is still to be read and \<open>haltedAt\<close>.\<close>

fun runPipelineInternal_loop ::
  "ctx \<Rightarrow> nat \<Rightarrow> 'w stage list \<Rightarrow> 'w stream \<Rightarrow> nat list \<Rightarrow> 'w
   \<Rightarrow> (js_error + 'w stream \<times> nat option) \<times> nat list \<times> 'w" where
  "runPipelineInternal_loop cx idx [] stream tr w = (Inr (stream, None), tr, w)"
| "runPipelineInternal_loop cx idx (stage # rest) stream tr w =
     (case call_stage stage idx stream cx tr w of
        (Inl e, tr', w') \<Rightarrow> (Inl e, tr', w')
      | (Inr result, tr', w') \<Rightarrow>
          if result_halt result then (Inr (result_output result, Some idx), tr', w')
          else runPipelineInternal_loop cx (Suc idx) rest (result_output result) tr' w')"

text \<open>After the loop the items of the stream it left are collected.\<close>

definition runPipelineInternal ::
  "'w stage list \<Rightarrow> ctx \<Rightarrow> 'w source \<Rightarrow> 'w \<Rightarrow> (js_error + pipeline_result) \<times> nat list \<times> 'w" where
  "runPipelineInternal stages cx input w =
     (case runPipelineInternal_loop cx 0 stages (toAsyncIterable (or_empty_array input)) [] w of
        (Inl e, tr, w') \<Rightarrow> (Inl e, tr, w')
      | (Inr (stream, at), tr, w') \<Rightarrow>
          (case collectItems stream w' of
             (Inl e, w'') \<Rightarrow> (Inl e, tr, w'')
           | (Inr items', w'') \<Rightarrow>
               (Inr \<lparr>items = items', halted = (at \<noteq> None), haltedAt = at\<rparr>, tr, w'')))"

section \<open>The approval gate\<close>

text \<open>\<open>a ?? b\<close>, and \<open>String(x)\<close> as a template literal applies it.\<close>

fun nullish :: "json option \<Rightarrow> json \<Rightarrow> json" where
  "nullish None b = b"
| "nullish (Some JNull) b = b"
| "nullish (Some a) b = a"

fun js_String :: "json \<Rightarrow> string" where
  "js_String JNull = ''null''"
| "js_String (JBool b) = (if b then ''true'' else ''false'')"
| "js_String (JNum n) = Number_toString n"
| "js_String (JFloat lit) = lit"
| "js_String (JStr s) = s"
| "js_String (JArr xs) = join_comma (map (\<lambda>x. if x = JNull then [] else js_String x) xs)"
| "js_String (JObj kvs) = ''[object Object]''"

subsection \<open>\<open>src/sdk/primitives/approve.ts\<close>\<close>

text \<open>The stage reads its input to the end, then halts with one item; when reading throws,
  so does the stage.\<close>

record approve_options =
  opt_prompt :: "json option"
  opt_preview :: "json option"

definition approve :: "approve_options \<Rightarrow> 'w stage" where
  "approve options =
     (let prompt = nullish (opt_prompt options) (JStr ''Approve?'');
          preview = (opt_preview options \<noteq> Some (JBool False))
      in StageObj (\<lambda>input cx w.
           case collectItems input w of
             (Inl e, w') \<Rightarrow> (Inl e, w')
           | (Inr items', w') \<Rightarrow>
               (Inr (Some \<lparr>stage_output =
                              Some (asStream [JObj [(''type'', JStr ''approval_request''),
                                                    (''prompt'', prompt),
                                                    (''items'', JArr (if preview then items' else [])),
                                                    (''itemCount'', JNum (int (length items')))]]),
                            halt = True, rendered = False\<rparr>), w')))"

subsection \<open>\<open>src/commands/stdlib/approve.ts\<close>\<close>

text \<open>
  The world of the command line is what has been written to \<open>ctx.stdout\<close>. \<open>readLine\<close>
  resolves with the text before the first line feed of the data of \<open>ctx.stdin\<close>, and never
  when there is none: then the command does not return (\<open>None\<close>). \<open>trim\<close> and the
  case-insensitive match are those of ASCII.
\<close>

definition isInteractive :: "stdin_stream \<Rightarrow> bool" where
  "isInteractive s = isTTY s"

definition readLine :: "stdin_stream \<Rightarrow> string option" where
  "readLine s =
     (if CHR 0x0A \<in> set (data s) then Some (takeWhile (\<lambda>c. c \<noteq> CHR 0x0A) (data s)) else None)"

definition is_space :: "char \<Rightarrow> bool" where
  "is_space c \<longleftrightarrow> (of_char c :: nat) \<in> {9, 10, 11, 12, 13, 32}"

definition trim :: "string \<Rightarrow> string" where
  "trim s = rev (dropWhile is_space (rev (dropWhile is_space s)))"

definition to_lower :: "char \<Rightarrow> char" where
  "to_lower c = (if 65 \<le> (of_char c :: nat) \<and> (of_char c :: nat) \<le> 90
                 then char_of ((of_char c :: nat) + 32) else c)"

text \<open>\<open>/^y(es)?$/i.test(s)\<close>.\<close>

definition matches_yes :: "string \<Rightarrow> bool" where
  "matches_yes s \<longleftrightarrow> map to_lower s = ''y'' \<or> map to_lower s = ''yes''"

text \<open>\<open>emit\<close> is worked out from left to right; \<open>ctx.stdin\<close> is looked at only when the
  first two tests fail, and reading \<open>isTTY\<close> of a missing \<open>stdin\<close> throws.\<close>

definition approveCommand_run :: "string command" where
  "approveCommand_run input args' cx out =
     (let prompt = nullish (obj_get args' ''prompt'') (JStr ''Approve?'') in
      case collectItems input out of
        (Inl e, out1) \<Rightarrow> Some (Inl e, out1)
      | (Inr items', out1) \<Rightarrow>
          (case (if (case obj_get args' ''emit'' of None \<Rightarrow> False | Some v \<Rightarrow> truthy v)
                    \<or> mode cx = ''tool''
                 then Inr True
                 else (case stdin cx of
                         None \<Rightarrow> Inl (TypeError [])
                       | Some sin \<Rightarrow> Inr (\<not> isInteractive sin))) of
             Inl e \<Rightarrow> Some (Inl e, out1)
           | Inr emit \<Rightarrow>
               if emit
               then Some (Inr (Some \<lparr>stage_output =
                                        Some (asStream [JObj [(''type'', JStr ''approval_request''),
                                                              (''prompt'', prompt),
                                                              (''items'', JArr items')]]),
                                      halt = True, rendered = False\<rparr>), out1)
               else
                 (let out2 = out1 @ js_String prompt @ '' [y/N] '' in
                  case (case stdin cx of None \<Rightarrow> None | Some sin \<Rightarrow> readLine sin) of
                    None \<Rightarrow> None
                  | Some answer \<Rightarrow>
                      if \<not> matches_yes (trim answer)
                      then Some (Inl (Error ''Not approved''), out2)
                      else Some (Inr (Some \<lparr>stage_output = Some (asStream items'), halt = False,
                                             rendered = False\<rparr>), out2))))"

section \<open>\<open>sdk/Lobster.ts\<close>: the workflow builder\<close>

record 'w Lobster =
  stages :: "'w stage list"
  options_env :: "string \<rightharpoonup> string"
  options_stateDir :: "string option"

text \<open>\<open>pipe\<close> refuses what is neither a function nor an object with \<open>run\<close>.\<close>

definition pipe :: "'w Lobster \<Rightarrow> 'w stage \<Rightarrow> js_error + 'w Lobster" where
  "pipe this stage =
     (case stage of
        NotAStage \<Rightarrow> Inl (Error ''Stage must be a function or have a run() method'')
      | _ \<Rightarrow> Inr (this\<lparr>stages := stages this @ [stage]\<rparr>))"

record approval =
  approval_prompt :: "json option"
  approval_items :: "json option"
  resumeToken :: string

record error_details =
  error_type :: string
  message :: string

record LobsterResult =
  ok :: bool
  status :: string
  lobster_output :: "json list"
  requiresApproval :: "approval option"
  error :: "error_details option"

text \<open>\<open>err?.message ?? String(err)\<close>.\<close>

fun error_message :: "js_error \<Rightarrow> string" where
  "error_message (Error m) = m"
| "error_message (SyntaxError m) = m"
| "error_message (TypeError m) = m"

text \<open>An object literal; \<open>JSON.stringify\<close> leaves out the members that are \<open>undefined\<close>.\<close>

definition object_literal :: "(string \<times> json option) list \<Rightarrow> json" where
  "object_literal ms = JObj (List.map_filter (\<lambda>(k, v). map_option (Pair k) v) ms)"

definition sdk_ctx :: "'w Lobster \<Rightarrow> ctx" where
  "sdk_ctx this = \<lparr>mode = ''sdk'', env = options_env this, stdin = None, stateDir = options_stateDir this\<rparr>"

definition is_approval_halt :: "pipeline_result \<Rightarrow> bool" where
  "is_approval_halt result \<longleftrightarrow>
     halted result \<and> length (items result) = 1
     \<and> get_prop (items result ! 0) ''type'' = Some (JStr ''approval_request'')"

definition error_result :: "js_error \<Rightarrow> LobsterResult" where
  "error_result err =
     \<lparr>ok = False, status = ''error'', lobster_output = [], requiresApproval = None,
      error = Some \<lparr>error_type = ''runtime_error'', message = error_message err\<rparr>\<rparr>"

text \<open>\<open>run(initialInput = [])\<close>.\<close>

definition Lobster_run ::
  "'w Lobster \<Rightarrow> 'w source \<Rightarrow> 'w \<Rightarrow> LobsterResult \<times> nat list \<times> 'w" where
  "Lobster_run this initialInput w =
     (case runPipelineInternal (stages this) (sdk_ctx this) (or_empty_array initialInput) w of
        (Inl err, tr, w') \<Rightarrow> (error_result err, tr, w')
      | (Inr result, tr, w') \<Rightarrow>
          if is_approval_halt result then
            (let approval = items result ! 0;
                 stageIndex = (case haltedAt result of None \<Rightarrow> - 1 | Some i \<Rightarrow> int i);
                 token = encodeToken (object_literal
                           [(''protocolVersion'', Some (JNum 1)),
                            (''v'', Some (JNum 1)),
                            (''stageIndex'', Some (JNum stageIndex)),
                            (''resumeAtIndex'', Some (JNum (stageIndex + 1))),
                            (''items'', get_prop approval ''items''),
                            (''prompt'', get_prop approval ''prompt'')])
             in (\<lparr>ok = True, status = ''needs_approval'', lobster_output = [],
                  requiresApproval = Some \<lparr>approval_prompt = get_prop approval ''prompt'',
                                            approval_items = get_prop approval ''items'',
                                            resumeToken = token\<rparr>,
                  error = None\<rparr>, tr, w'))
          else (\<lparr>ok = True, status = ''ok'', lobster_output = items result,
                 requiresApproval = None, error = None\<rparr>, tr, w'))"

text \<open>
  \<open>resume(token, { approved })\<close>. The token is decoded outside the \<open>try\<close>: an invalid token,
  and a payload \<open>null\<close> (whose member cannot be read), are thrown to the caller. The
  arithmetic on \<open>resumeAtIndex\<close> is modelled for an integer (and for a missing or \<open>null\<close>
  member, which is 0); for a payload with another \<open>resumeAtIndex\<close>, which no token made by
  \<open>run\<close> or \<open>resume\<close> has, the model says nothing (\<open>None\<close>). \<open>slice\<close> counts a negative index
  from the end.
\<close>

definition resume_index :: "json \<Rightarrow> int option" where
  "resume_index payload =
     (case get_prop payload ''resumeAtIndex'' of
        None \<Rightarrow> Some 0
      | Some JNull \<Rightarrow> Some 0
      | Some (JNum n) \<Rightarrow> Some n
      | Some _ \<Rightarrow> None)"

definition slice :: "'a list \<Rightarrow> int \<Rightarrow> 'a list" where
  "slice xs n = (if n < 0 then drop (nat (int (length xs) + n)) xs else drop (nat n) xs)"

definition cancelled_result :: LobsterResult where
  "cancelled_result =
     \<lparr>ok = True, status = ''cancelled'', lobster_output = [], requiresApproval = None, error = None\<rparr>"

definition Lobster_resume ::
  "'w Lobster \<Rightarrow> string \<Rightarrow> bool \<Rightarrow> 'w \<Rightarrow> ((js_error + LobsterResult) \<times> nat list \<times> 'w) option" where
  "Lobster_resume this token approved w =
     (if \<not> approved then Some (Inr cancelled_result, [], w)
      else
        (case decodeToken token of
           Inl err \<Rightarrow> Some (Inl err, [], w)
         | Inr payload \<Rightarrow>
             if payload = JNull then Some (Inl (TypeError []), [], w)
             else
               (case resume_index payload of
                  None \<Rightarrow> None
                | Some resumeIndex \<Rightarrow>
                    (let resumeItems = nullish (get_prop payload ''items'') (JArr []);
                         remainingStages = slice (stages this) resumeIndex
                     in case runPipelineInternal remainingStages (sdk_ctx this)
                               (Value (Some resumeItems)) w of
                          (Inl err, tr, w') \<Rightarrow> Some (Inr (error_result err), tr, w')
                        | (Inr result, tr, w') \<Rightarrow>
                            if is_approval_halt result then
                              (let approval = items result ! 0;
                                   stageIndex = resumeIndex
                                     + (case haltedAt result of None \<Rightarrow> 0 | Some i \<Rightarrow> int i);
                                   token' = encodeToken (object_literal
                                              [(''protocolVersion'', Some (JNum 1)),
                                               (''v'', Some (JNum 1)),
                                               (''stageIndex'', Some (JNum stageIndex)),
                                               (''resumeAtIndex'', Some (JNum (stageIndex + 1))),
                                               (''items'', get_prop approval ''items''),
                                               (''prompt'', get_prop approval ''prompt'')])
                               in Some (Inr \<lparr>ok = True, status = ''needs_approval'', lobster_output = [],
                                            requiresApproval =
                                              Some \<lparr>approval_prompt = get_prop approval ''prompt'',
                                                    approval_items = get_prop approval ''items'',
                                                    resumeToken = token'\<rparr>,
                                            error = None\<rparr>, tr, w'))
                            else Some (Inr \<lparr>ok = True, status = ''ok'', lobster_output = items result,
                                           requiresApproval = None, error = None\<rparr>, tr, w')))))"

section \<open>\<open>src/commands/stdlib/llm_task_invoke.ts\<close>\<close>

subsection \<open>Arguments, platform and world\<close>

text \<open>
  The arguments have the types that \<open>meta.argsSchema\<close> declares (a missing argument is
  \<open>None\<close>); numbers are JSON numbers, the bound on retries an integer. What the command uses
  of its platform is a parameter: the SHA-256 digest in hexadecimal, the compiler of JSON
  schemas (a compiled schema answers \<open>None\<close> for a value that satisfies it and the list of
  its errors, each a path and a message, otherwise), the network (what \<open>fetch\<close> answers to a
  request, given the requests made before) and the construction of the two endpoint URLs.
  The world holds the run-state records, the files of the cache, the requests sent so far,
  and the clock.
\<close>

record llm_args =
  arg_url :: "string option"
  arg_token :: "string option"
  arg_prompt :: "string option"
  arg_model :: "string option"
  arg_artifacts_json :: "string option"
  arg_metadata_json :: "string option"
  arg_output_schema :: "string option"
  arg_schema_version :: "string option"
  arg_max_validation_retries :: "int option"
  arg_temperature :: "json option"
  arg_max_output_tokens :: "json option"
  arg_state_key :: "string option"
  arg_refresh :: "bool option"
  arg_disable_cache :: "bool option"
  arg_positional :: "string list option"

record http_response =
  res_ok :: bool
  res_status :: nat
  res_statusText :: string
  res_text :: string

record request =
  req_url :: string
  req_authorization :: "string option"
  req_body :: string

type_synonym ajv_error = "string \<times> string option"

record platform =
  sha256 :: "string \<Rightarrow> string"
  ajv_compile :: "json \<Rightarrow> js_error + (json \<Rightarrow> ajv_error list option)"
  fetch :: "request list \<Rightarrow> request \<Rightarrow> js_error + http_response"
  buildDirectEndpoint :: "string \<Rightarrow> js_error + string"
  buildClawdEndpoint :: "string \<Rightarrow> js_error + string"
  cwd :: string

record llm_world =
  run_state :: "string \<rightharpoonup> json"
  cache_files :: "string \<rightharpoonup> string"
  requests :: "request list"
  clock :: string

text \<open>Modelled from the spec: \<open>readStateJson\<close> and \<open>writeStateJson\<close> of
  \<open>src/state/store.ts\<close>, which is not among the sources. The spec describes the run-state
  store as a keyed store of one JSON record per key; a record that cannot be read is
  \<open>null\<close> for the caller (\<open>.catch(() => null)\<close>).\<close>

definition readStateJson :: "llm_world \<Rightarrow> string \<Rightarrow> json option" where
  "readStateJson w key = run_state w key"

definition writeStateJson :: "llm_world \<Rightarrow> string \<Rightarrow> json \<Rightarrow> llm_world" where
  "writeStateJson w key v = w\<lparr>run_state := (run_state w)(key \<mapsto> v)\<rparr>"

text \<open>Modelled from the spec: \<open>stableStringify\<close> of \<open>src/state/store.ts\<close>, which is not
  among the sources. The spec asks for a canonical form with object keys sorted recursively;
  the keys are compared as \<open>Array.prototype.sort\<close> compares strings, character by
  character.\<close>

fun canonical :: "json \<Rightarrow> json" where
  "canonical (JArr xs) = JArr (map canonical xs)"
| "canonical (JObj kvs) = JObj (sort_key fst (map (\<lambda>(k, v). (k, canonical v)) kvs))"
| "canonical v = v"

definition stableStringify :: "json \<Rightarrow> string" where
  "stableStringify v = JSON_stringify (canonical v)"

subsection \<open>Reading the arguments\<close>

text \<open>\<open>Number(s)\<close> for a string of the environment: the empty string is 0, a decimal
  integer its value; any other numeral is read as \<open>NaN\<close> here (\<open>None\<close>).\<close>

definition Number_of_string :: "string \<Rightarrow> int option" where
  "Number_of_string s =
     (let t = trim s in
      if t = [] then Some 0
      else (case t of
              [] \<Rightarrow> Some 0
            | c # r \<Rightarrow>
                if (c = CHR ''-'' \<or> c = CHR ''+'') \<and> r \<noteq> [] \<and> list_all is_digit r
                then Some (if c = CHR ''-'' then - int (nat_of_digits r) else int (nat_of_digits r))
                else if list_all is_digit t then Some (int (nat_of_digits t))
                else None))"

definition extractPrompt :: "llm_args \<Rightarrow> string" where
  "extractPrompt a =
     (case arg_prompt a of
        Some p \<Rightarrow> if p \<noteq> [] then p else
          (case arg_positional a of
             Some (x # xs) \<Rightarrow> foldl (\<lambda>acc y. acc @ '' '' @ y) x xs
           | _ \<Rightarrow> [])
      | None \<Rightarrow>
          (case arg_positional a of
             Some (x # xs) \<Rightarrow> foldl (\<lambda>acc y. acc @ '' '' @ y) x xs
           | _ \<Rightarrow> []))"

definition parseJsonArray :: "string option \<Rightarrow> string \<Rightarrow> js_error + json list" where
  "parseJsonArray raw label =
     (case raw of
        None \<Rightarrow> Inr []
      | Some text \<Rightarrow>
          if text = [] then Inr []
          else (case JSON_parse text of
                  Inr (JArr xs) \<Rightarrow> Inr xs
                | _ \<Rightarrow> Inl (Error (label @ '' must be a JSON array''))))"

definition parseJsonObject :: "string option \<Rightarrow> string \<Rightarrow> js_error + json option" where
  "parseJsonObject raw label =
     (case raw of
        None \<Rightarrow> Inr None
      | Some text \<Rightarrow>
          if text = [] then Inr None
          else (case JSON_parse text of
                  Inr (JObj kvs) \<Rightarrow> Inr (Some (JObj kvs))
                | _ \<Rightarrow> Inl (Error (label @ '' must be a JSON object''))))"

fun parseOptionalNumber :: "json option \<Rightarrow> json option" where
  "parseOptionalNumber (Some (JNum n)) = Some (JNum n)"
| "parseOptionalNumber (Some (JFloat lit)) = Some (JFloat lit)"
| "parseOptionalNumber _ = None"

text \<open>\<open>flag\<close> of a boolean argument, and of a string of the environment.\<close>

definition flag_string :: "string \<Rightarrow> bool" where
  "flag_string v =
     (let normalized = map to_lower (trim v) in
      if normalized \<in> set [''false'', ''0'', ''no''] then False
      else if normalized \<in> set [''true'', ''1'', ''yes''] then True
      else v \<noteq> [])"

definition flag :: "bool option \<Rightarrow> bool" where
  "flag v = (case v of None \<Rightarrow> False | Some b \<Rightarrow> b)"

fun normalizeArtifact :: "json \<Rightarrow> json" where
  "normalizeArtifact (JObj kvs) = JObj kvs"
| "normalizeArtifact (JStr s) = JObj [(''kind'', JStr ''text''), (''text'', JStr s)]"
| "normalizeArtifact (JNum n) = JObj [(''kind'', JStr ''text''), (''text'', JStr (Number_toString n))]"
| "normalizeArtifact (JFloat lit) = JObj [(''kind'', JStr ''text''), (''text'', JStr lit)]"
| "normalizeArtifact (JBool b) =
     JObj [(''kind'', JStr ''text''), (''text'', JStr (if b then ''true'' else ''false''))]"
| "normalizeArtifact raw = JObj [(''kind'', JStr ''json''), (''data'', raw)]"

definition hashArtifact :: "platform \<Rightarrow> json \<Rightarrow> string" where
  "hashArtifact P artifact = sha256 P (stableStringify artifact)"

definition computeCacheKey ::
  "platform \<Rightarrow> string \<Rightarrow> string \<Rightarrow> string \<Rightarrow> string list \<Rightarrow> json option \<Rightarrow> string" where
  "computeCacheKey P prompt model schemaVersion artifactHashes outputSchema =
     sha256 P (stableStringify (JObj
       [(''prompt'', JStr prompt),
        (''model'', JStr (if model \<noteq> [] then model else ''clawd-default'')),
        (''schemaVersion'', JStr schemaVersion),
        (''artifactHashes'', JArr (map JStr artifactHashes)),
        (''outputSchema'', (case outputSchema of None \<Rightarrow> JNull | Some s \<Rightarrow> s))]))"

datatype transport = Direct | Clawd

text \<open>What \<open>run\<close> has worked out when it reaches the lookups (lines 200 to 250).
  The arguments are read first (\<open>derive_call\<close>, which may throw); only then is the input
  read to its end, and the artifacts, their hashes and the cache key depend on its items.\<close>

record call =
  c_transport :: transport
  c_baseUrl :: string
  c_clawdUrl :: string
  c_prompt :: string
  c_model :: string
  c_schemaVersion :: string
  c_maxOutputTokens :: "json option"
  c_temperature :: "json option"
  c_metadataObject :: "json option"
  c_userOutputSchema :: "json option"
  c_maxValidationRetries :: nat
  c_disableCache :: bool
  c_forceRefresh :: bool
  c_stateKey :: "string option"
  c_normalizedArtifacts :: "json list"
  c_artifactHashes :: "string list"
  c_cacheKey :: string
  c_token :: string

definition env_or :: "string option \<Rightarrow> string option \<Rightarrow> string" where
  "env_or a b = (case a of Some x \<Rightarrow> x | None \<Rightarrow> (case b of Some y \<Rightarrow> y | None \<Rightarrow> []))"

definition derive_call ::
  "platform \<Rightarrow> llm_args \<Rightarrow> (string \<rightharpoonup> string) \<Rightarrow> js_error + (json list \<Rightarrow> call)" where
  "derive_call P a ev =
     (let baseUrl = trim (env_or (arg_url a) (ev ''LLM_TASK_URL''));
          clawdUrl = trim (env_or (ev ''CLAWD_URL'') None);
          tr = (if baseUrl \<noteq> [] then Direct else if clawdUrl \<noteq> [] then Clawd else Direct)
      in if baseUrl = [] \<and> clawdUrl = []
         then Inl (Error ''llm_task.invoke requires either LLM_TASK_URL/--url (direct) or CLAWD_URL (Clawdbot)'')
         else
          (let prompt = extractPrompt a in
           if prompt = [] then Inl (Error ''llm_task.invoke requires --prompt or positional text'')
           else
            (let model = trim (env_or (arg_model a) (ev ''LLM_TASK_MODEL'')) in
             if model = [] \<and> tr = Direct
             then Inl (Error ''llm_task.invoke requires --model (or LLM_TASK_MODEL) in direct mode'')
             else
              (let schemaVersion =
                     (case arg_schema_version a of
                        Some s \<Rightarrow> if s \<noteq> [] then trim s
                                  else (case ev ''LLM_TASK_SCHEMA_VERSION'' of
                                          Some e \<Rightarrow> if e \<noteq> [] then trim e else ''v1''
                                        | None \<Rightarrow> ''v1'')
                      | None \<Rightarrow> (case ev ''LLM_TASK_SCHEMA_VERSION'' of
                                    Some e \<Rightarrow> if e \<noteq> [] then trim e else ''v1''
                                  | None \<Rightarrow> ''v1''));
                   maxOutputTokens = parseOptionalNumber (arg_max_output_tokens a);
                   temperature = parseOptionalNumber (arg_temperature a)
               in case parseJsonArray (arg_artifacts_json a) ''llm_task.invoke --artifacts-json'' of
                    Inl e \<Rightarrow> Inl e
                  | Inr providedArtifacts \<Rightarrow>
                   (case parseJsonObject (arg_metadata_json a) ''llm_task.invoke --metadata-json'' of
                      Inl e \<Rightarrow> Inl e
                    | Inr metadataObject \<Rightarrow>
                     (case parseJsonObject (arg_output_schema a) ''llm_task.invoke --output-schema'' of
                        Inl e \<Rightarrow> Inl e
                      | Inr userOutputSchema \<Rightarrow>
                         (let raw = (case arg_max_validation_retries a of
                                       Some n \<Rightarrow> Some n
                                     | None \<Rightarrow> (case ev ''LLM_TASK_VALIDATION_RETRIES'' of
                                                   Some s \<Rightarrow> Number_of_string s
                                                 | None \<Rightarrow> None));
                              maxValidationRetries =
                                (if userOutputSchema \<noteq> None
                                 then nat (max 0 (case raw of Some n \<Rightarrow> n | None \<Rightarrow> 1))
                                 else 0);
                              disableCache = flag (arg_disable_cache a);
                              forceRefresh = (case arg_refresh a of
                                                Some b \<Rightarrow> b
                                              | None \<Rightarrow> (case ev ''LLM_TASK_FORCE_REFRESH'' of
                                                            Some s \<Rightarrow> flag_string s
                                                          | None \<Rightarrow> False));
                              sk = trim (env_or (arg_state_key a) (ev ''LOBSTER_RUN_STATE_KEY''))
                          in Inr (\<lambda>inputArtifacts.
                               let normalizedArtifacts =
                                     map normalizeArtifact (inputArtifacts @ providedArtifacts);
                                   artifactHashes = map (hashArtifact P) normalizedArtifacts
                               in \<lparr>c_transport = tr, c_baseUrl = baseUrl, c_clawdUrl = clawdUrl,
                                  c_prompt = prompt, c_model = model, c_schemaVersion = schemaVersion,
                                  c_maxOutputTokens = maxOutputTokens, c_temperature = temperature,
                                  c_metadataObject = metadataObject,
                                  c_userOutputSchema = userOutputSchema,
                                  c_maxValidationRetries = maxValidationRetries,
                                  c_disableCache = disableCache, c_forceRefresh = forceRefresh,
                                  c_stateKey = (if sk = [] then None else Some sk),
                                  c_normalizedArtifacts = normalizedArtifacts,
                                  c_artifactHashes = artifactHashes,
                                  c_cacheKey = computeCacheKey P prompt model schemaVersion
                                                 artifactHashes userOutputSchema,
                                  c_token = trim (env_or (arg_token a)
                                              (if tr = Direct then ev ''LLM_TASK_TOKEN''
                                               else ev ''CLAWD_TOKEN''))\<rparr>))))))))"

subsection \<open>Run state and cache\<close>

text \<open>\<open>{ ...item }\<close>: the own members of an object, the elements of an array and the
  characters of a string under their indices, nothing for another value.\<close>

fun js_spread :: "json \<Rightarrow> object" where
  "js_spread (JObj kvs) = kvs"
| "js_spread (JArr xs) = map (\<lambda>(i, x). (dec_nat i, x)) (enumerate 0 xs)"
| "js_spread (JStr s) = map (\<lambda>(i, c). (dec_nat i, JStr [c])) (enumerate 0 s)"
| "js_spread _ = []"

definition mark_item :: "string \<Rightarrow> json \<Rightarrow> json" where
  "mark_item source item =
     JObj (obj_set (obj_set (js_spread item) ''source'' (JStr source)) ''cached'' (JBool True))"

definition pickReusableState :: "json option \<Rightarrow> string \<Rightarrow> json list option" where
  "pickReusableState stored cacheKey =
     (case stored of
        Some (JObj kvs) \<Rightarrow>
          if obj_get kvs ''type'' \<noteq> Some (JStr ''llm_task.invoke'') then None
          else if obj_get kvs ''cacheKey'' \<noteq> Some (JStr cacheKey) then None
          else (case obj_get kvs ''items'' of Some (JArr xs) \<Rightarrow> Some xs | _ \<Rightarrow> None)
      | _ \<Rightarrow> None)"

definition getCacheDir :: "platform \<Rightarrow> (string \<rightharpoonup> string) \<Rightarrow> string" where
  "getCacheDir P ev =
     (case ev ''LOBSTER_CACHE_DIR'' of
        Some d \<Rightarrow> if d \<noteq> [] then d else cwd P @ ''/.lobster-cache''
      | None \<Rightarrow> cwd P @ ''/.lobster-cache'')"

definition cache_path :: "platform \<Rightarrow> (string \<rightharpoonup> string) \<Rightarrow> string \<Rightarrow> string" where
  "cache_path P ev key = getCacheDir P ev @ ''/llm_task.invoke/'' @ key @ ''.json''"

definition readCacheEntry ::
  "platform \<Rightarrow> (string \<rightharpoonup> string) \<Rightarrow> llm_world \<Rightarrow> string \<Rightarrow> js_error + json option" where
  "readCacheEntry P ev w key =
     (case cache_files w (cache_path P ev key) of
        None \<Rightarrow> Inr None
      | Some text \<Rightarrow> (case JSON_parse text of Inl e \<Rightarrow> Inl e | Inr v \<Rightarrow> Inr (Some v)))"

text \<open>The file is written without the indentation that the source asks for.\<close>

definition writeCacheEntry ::
  "platform \<Rightarrow> (string \<rightharpoonup> string) \<Rightarrow> llm_world \<Rightarrow> string \<Rightarrow> json list \<Rightarrow> llm_world" where
  "writeCacheEntry P ev w key its =
     w\<lparr>cache_files := (cache_files w)(cache_path P ev key \<mapsto>
          JSON_stringify (JObj [(''items'', JArr its), (''cacheKey'', JStr key),
                                (''storedAt'', JStr (clock w))]))\<rparr>"

definition persistOutputs :: "llm_world \<Rightarrow> string option \<Rightarrow> string \<Rightarrow> json list \<Rightarrow> llm_world" where
  "persistOutputs w stateKey cacheKey its =
     (case stateKey of
        None \<Rightarrow> w
      | Some key \<Rightarrow>
          writeStateJson w key
            (JObj [(''type'', JStr ''llm_task.invoke''), (''version'', JNum 1),
                   (''cacheKey'', JStr cacheKey), (''items'', JArr its),
                   (''storedAt'', JStr (clock w))]))"

subsection \<open>The two static schemas\<close>

text \<open>\<open>validatePayload\<close> and \<open>validateResponseEnvelope\<close> are the schemas
  \<open>payloadSchema\<close> and \<open>responseSchema\<close>, read off by hand. A length is counted in bytes.\<close>

fun is_object :: "json \<Rightarrow> bool" where
  "is_object (JObj kvs) = True"
| "is_object _ = False"

fun is_string :: "json \<Rightarrow> bool" where
  "is_string (JStr s) = True"
| "is_string _ = False"

fun is_number :: "json \<Rightarrow> bool" where
  "is_number (JNum n) = True"
| "is_number (JFloat lit) = True"
| "is_number _ = False"

fun is_boolean :: "json \<Rightarrow> bool" where
  "is_boolean (JBool b) = True"
| "is_boolean _ = False"

fun is_string_array :: "json \<Rightarrow> bool" where
  "is_string_array (JArr xs) = list_all is_string xs"
| "is_string_array _ = False"

fun min_length_string :: "nat \<Rightarrow> json \<Rightarrow> bool" where
  "min_length_string n (JStr s) = (n \<le> length s)"
| "min_length_string n _ = False"

text \<open>\<open>opt_member v k p\<close>: the member \<open>k\<close> of \<open>v\<close> is missing or satisfies \<open>p\<close>.\<close>

definition opt_member :: "json \<Rightarrow> string \<Rightarrow> (json \<Rightarrow> bool) \<Rightarrow> bool" where
  "opt_member v k p = (case get_prop v k of None \<Rightarrow> True | Some x \<Rightarrow> p x)"

definition valid_artifact :: "json \<Rightarrow> bool" where
  "valid_artifact v \<longleftrightarrow>
     is_object v \<and> list_all (\<lambda>k. opt_member v k is_string)
                      [''kind'', ''role'', ''name'', ''mimeType'', ''text'', ''uri'']"

definition valid_retryContext :: "json \<Rightarrow> bool" where
  "valid_retryContext v \<longleftrightarrow>
     (case v of
        JObj kvs \<Rightarrow> list_all (\<lambda>(k, x). k \<in> set [''attempt'', ''validationErrors'']) kvs
                    \<and> opt_member v ''attempt'' is_number
                    \<and> opt_member v ''validationErrors'' is_string_array
      | _ \<Rightarrow> False)"

definition validatePayload :: "json \<Rightarrow> bool" where
  "validatePayload v \<longleftrightarrow>
     (case v of
        JObj kvs \<Rightarrow>
          list_all (\<lambda>(k, x). k \<in> set [''prompt'', ''model'', ''artifacts'', ''artifactHashes'',
                                         ''schemaVersion'', ''metadata'', ''outputSchema'',
                                         ''temperature'', ''maxOutputTokens'', ''retryContext'']) kvs
          \<and> (case obj_get kvs ''prompt'' of Some p \<Rightarrow> min_length_string 1 p | None \<Rightarrow> False)
          \<and> opt_member v ''model'' (min_length_string 1)
          \<and> (case obj_get kvs ''artifacts'' of Some (JArr xs) \<Rightarrow> list_all valid_artifact xs | _ \<Rightarrow> False)
          \<and> (case obj_get kvs ''artifactHashes'' of
                Some (JArr xs) \<Rightarrow> list_all (min_length_string 10) xs
              | _ \<Rightarrow> False)
          \<and> opt_member v ''schemaVersion'' is_string
          \<and> opt_member v ''metadata'' is_object
          \<and> opt_member v ''outputSchema'' is_object
          \<and> opt_member v ''temperature'' is_number
          \<and> opt_member v ''maxOutputTokens'' is_number
          \<and> opt_member v ''retryContext'' valid_retryContext
      | _ \<Rightarrow> False)"

definition valid_output :: "json \<Rightarrow> bool" where
  "valid_output v \<longleftrightarrow> is_object v \<and> opt_member v ''text'' is_string \<and> opt_member v ''format'' is_string"

definition valid_usage :: "json \<Rightarrow> bool" where
  "valid_usage v \<longleftrightarrow>
     is_object v \<and> list_all (\<lambda>k. opt_member v k is_number) [''inputTokens'', ''outputTokens'', ''totalTokens'']"

definition valid_result :: "json \<Rightarrow> bool" where
  "valid_result v \<longleftrightarrow>
     is_object v
     \<and> list_all (\<lambda>k. opt_member v k is_string) [''runId'', ''model'', ''prompt'', ''status'']
     \<and> (case get_prop v ''output'' of None \<Rightarrow> False | Some x \<Rightarrow> valid_output x)
     \<and> opt_member v ''usage'' valid_usage
     \<and> opt_member v ''warnings'' is_string_array
     \<and> opt_member v ''metadata'' is_object
     \<and> opt_member v ''diagnostics'' is_object"

definition validateResponseEnvelope :: "json \<Rightarrow> bool" where
  "validateResponseEnvelope v \<longleftrightarrow>
     is_object v
     \<and> (case get_prop v ''ok'' of None \<Rightarrow> False | Some x \<Rightarrow> is_boolean x)
     \<and> opt_member v ''result'' valid_result
     \<and> opt_member v ''error'' is_object"

subsection \<open>The two transports\<close>

definition send :: "platform \<Rightarrow> llm_world \<Rightarrow> string \<Rightarrow> string \<Rightarrow> json \<Rightarrow> (js_error + http_response) \<times> llm_world" where
  "send P w endpoint token body =
     (let req = \<lparr>req_url = endpoint,
                 req_authorization = (if token \<noteq> [] then Some (''Bearer '' @ token) else None),
                 req_body = JSON_stringify body\<rparr>
      in (fetch P (requests w) req, w\<lparr>requests := requests w @ [req]\<rparr>))"

definition http_failure :: "http_response \<Rightarrow> js_error" where
  "http_failure res =
     Error (dec_nat (res_status res) @ '' '' @ res_statusText res @ '': '' @ take 400 (res_text res))"

definition invokeRemoteDirect ::
  "platform \<Rightarrow> llm_world \<Rightarrow> string \<Rightarrow> string \<Rightarrow> json \<Rightarrow> (js_error + json) \<times> llm_world" where
  "invokeRemoteDirect P w endpoint token payload =
     (case send P w endpoint token payload of
        (Inl e, w') \<Rightarrow> (Inl e, w')
      | (Inr res, w') \<Rightarrow>
          if \<not> res_ok res then (Inl (http_failure res), w')
          else if res_text res = [] then (Inr (JObj [(''ok'', JBool True), (''result'', JObj [])]), w')
          else (case JSON_parse (res_text res) of
                  Inl e \<Rightarrow> (Inl (Error ''Response was not JSON''), w')
                | Inr v \<Rightarrow> (Inr v, w')))"

text \<open>\<open>'ok' in x\<close> for an object that is not an array.\<close>

fun has_ok :: "json \<Rightarrow> bool" where
  "has_ok (JObj kvs) = (obj_get kvs ''ok'' \<noteq> None)"
| "has_ok _ = False"

definition invokeRemoteViaClawd ::
  "platform \<Rightarrow> llm_world \<Rightarrow> string \<Rightarrow> string \<Rightarrow> json \<Rightarrow> (js_error + json) \<times> llm_world" where
  "invokeRemoteViaClawd P w endpoint token payload =
     (case send P w endpoint token
             (JObj [(''tool'', JStr ''llm-task''), (''action'', JStr ''invoke''), (''args'', payload)]) of
        (Inl e, w') \<Rightarrow> (Inl e, w')
      | (Inr res, w') \<Rightarrow>
          if \<not> res_ok res then (Inl (http_failure res), w')
          else
            (case (if res_text res = [] then Inr JNull else JSON_parse (res_text res)) of
               Inl e \<Rightarrow> (Inl (Error ''Response was not JSON''), w')
             | Inr parsed \<Rightarrow>
                 if has_ok parsed then
                   (if get_prop parsed ''ok'' \<noteq> Some (JBool True)
                    then (Inl (Error (''clawd tool error: ''
                            @ js_String (nullish (case get_prop parsed ''error'' of
                                                    None \<Rightarrow> None
                                                  | Some er \<Rightarrow> get_prop er ''message'')
                                           (JStr ''Unknown error'')))), w')
                    else
                      (case get_prop parsed ''result'' of
                         None \<Rightarrow> (Inr (JObj [(''ok'', JBool True)]), w')
                       | Some inner \<Rightarrow>
                           if has_ok inner then (Inr inner, w')
                           else (Inr (JObj [(''ok'', JBool True), (''result'', inner)]), w')))
                 else (Inr (JObj [(''ok'', JBool True), (''result'', parsed)]), w')))"

subsection \<open>The result and the loop of attempts\<close>

definition or_null :: "json option \<Rightarrow> json" where
  "or_null v = nullish v JNull"

definition normalizeResult :: "json \<Rightarrow> call \<Rightarrow> string \<Rightarrow> nat \<Rightarrow> string \<Rightarrow> json list" where
  "normalizeResult envelope c source attempt now =
     (let result = nullish (get_prop envelope ''result'') (JObj []);
          outp = nullish (get_prop result ''output'') (JObj [])
      in [JObj
           [(''kind'', JStr ''llm_task.invoke''),
            (''runId'', or_null (get_prop result ''runId'')),
            (''prompt'', or_null (get_prop result ''prompt'')),
            (''model'', or_null (get_prop result ''model'')),
            (''schemaVersion'', JStr (c_schemaVersion c)),
            (''status'', JStr (js_String (nullish (get_prop result ''status'') (JStr ''completed'')))),
            (''cacheKey'', JStr (c_cacheKey c)),
            (''artifactHashes'', JArr (map JStr (c_artifactHashes c))),
            (''output'', JObj
               [(''format'', nullish (get_prop outp ''format'')
                               (JStr (if (case get_prop outp ''data'' of None \<Rightarrow> False | Some d \<Rightarrow> truthy d)
                                      then ''json'' else ''text''))),
                (''text'', or_null (get_prop outp ''text'')),
                (''data'', or_null (get_prop outp ''data''))]),
            (''usage'', or_null (get_prop result ''usage'')),
            (''metadata'', or_null (get_prop result ''metadata'')),
            (''warnings'', or_null (get_prop result ''warnings'')),
            (''diagnostics'', or_null (get_prop result ''diagnostics'')),
            (''createdAt'', JStr now),
            (''source'', JStr source),
            (''cached'', JBool (source \<noteq> ''remote'' \<and> source \<noteq> ''clawd'')),
            (''attemptCount'', JNum (int attempt))]])"

definition collectAjvErrors :: "ajv_error list \<Rightarrow> string list" where
  "collectAjvErrors errors =
     map (\<lambda>(instancePath, msg).
            trim ((if instancePath \<noteq> [] then instancePath else ''/'') @ '' ''
                  @ (case msg of None \<Rightarrow> [] | Some m \<Rightarrow> m))) errors"

fun join_with :: "string \<Rightarrow> string list \<Rightarrow> string" where
  "join_with sep [] = []"
| "join_with sep [x] = x"
| "join_with sep (x # y # ys) = x @ sep @ join_with sep (y # ys)"

fun obj_delete :: "object \<Rightarrow> string \<Rightarrow> object" where
  "obj_delete [] k = []"
| "obj_delete ((k', v) # kvs) k = (if k' = k then kvs else (k', v) # obj_delete kvs k)"

definition with_retryContext :: "object \<Rightarrow> nat \<Rightarrow> string list \<Rightarrow> object" where
  "with_retryContext payload attempt lastValidationErrors =
     (if 1 < attempt
      then obj_set payload ''retryContext''
             (JObj ((''attempt'', JNum (int attempt))
                    # (if lastValidationErrors \<noteq> []
                       then [(''validationErrors'', JArr (map JStr lastValidationErrors))] else [])))
      else obj_delete payload ''retryContext'')"

definition succeed ::
  "platform \<Rightarrow> (string \<rightharpoonup> string) \<Rightarrow> call \<Rightarrow> json list \<Rightarrow> llm_world
   \<Rightarrow> (js_error + llm_world stage_result option) \<times> llm_world" where
  "succeed P ev c normalized w =
     (let w1 = persistOutputs w (c_stateKey c) (c_cacheKey c) normalized;
          w2 = (if \<not> c_disableCache c then writeCacheEntry P ev w1 (c_cacheKey c) normalized else w1)
      in (Inr (Some \<lparr>stage_output = Some (asStream normalized), halt = False, rendered = False\<rparr>), w2))"

text \<open>The \<open>while (true)\<close> loop; \<open>attempt\<close> is the number of attempts made before the turn.
  It ends: a turn that goes round again has \<open>attempt + 1 \<le> maxValidationRetries + 1\<close>.\<close>

function attempt_loop ::
  "platform \<Rightarrow> (string \<rightharpoonup> string) \<Rightarrow> call \<Rightarrow> string \<Rightarrow> (json \<Rightarrow> ajv_error list option) option
   \<Rightarrow> object \<Rightarrow> nat \<Rightarrow> string list \<Rightarrow> llm_world \<Rightarrow> (js_error + llm_world stage_result option) \<times> llm_world" where
  "attempt_loop P ev c endpoint validator payload attempt lastValidationErrors w =
     (let attempt' = attempt + 1;
          payload' = with_retryContext payload attempt' lastValidationErrors
      in case (if c_transport c = Direct
               then invokeRemoteDirect P w endpoint (c_token c) (JObj payload')
               else invokeRemoteViaClawd P w endpoint (c_token c) (JObj payload')) of
           (Inl err, w1) \<Rightarrow>
             (Inl (Error (''llm_task.invoke request failed: '' @ error_message err)), w1)
         | (Inr responseEnvelope, w1) \<Rightarrow>
             if \<not> validateResponseEnvelope responseEnvelope
             then (Inl (Error ''llm_task.invoke received invalid response envelope''), w1)
             else if get_prop responseEnvelope ''ok'' \<noteq> Some (JBool True)
             then (Inl (Error (''llm_task.invoke remote error: ''
                     @ js_String (nullish (case get_prop responseEnvelope ''error'' of
                                             None \<Rightarrow> None
                                           | Some er \<Rightarrow> get_prop er ''message'')
                                    (JStr ''llm-task returned an error'')))), w1)
             else
               (let normalized = normalizeResult responseEnvelope c
                                   (if c_transport c = Direct then ''remote'' else ''clawd'')
                                   attempt' (clock w1)
                in case validator of
                     None \<Rightarrow> succeed P ev c normalized w1
                   | Some validate \<Rightarrow>
                       (let structured =
                              or_null (case get_prop (hd normalized) ''output'' of
                                         None \<Rightarrow> None
                                       | Some ou \<Rightarrow> get_prop ou ''data'')
                        in case validate structured of
                             None \<Rightarrow> succeed P ev c normalized w1
                           | Some errors \<Rightarrow>
                               if c_maxValidationRetries c + 1 < attempt'
                               then (Inl (Error (''llm_task.invoke output failed schema validation: ''
                                       @ join_with ''; '' (collectAjvErrors errors))), w1)
                               else attempt_loop P ev c endpoint validator payload' attempt'
                                      (collectAjvErrors errors) w1)))"
  by pat_completeness auto
termination
  by (relation "measure (\<lambda>(P, ev, c, endpoint, validator, payload, attempt, errs, w).
                  c_maxValidationRetries c + 2 - attempt)") auto

declare attempt_loop.simps [simp del]

subsection \<open>\<open>llmTaskInvokeCommand.run\<close>\<close>

definition build_payload :: "call \<Rightarrow> object" where
  "build_payload c =
     [(''prompt'', JStr (c_prompt c))]
     @ (if c_model c \<noteq> [] then [(''model'', JStr (c_model c))] else [])
     @ [(''artifacts'', JArr (c_normalizedArtifacts c)),
        (''artifactHashes'', JArr (map JStr (c_artifactHashes c)))]
     @ (case c_metadataObject c of None \<Rightarrow> [] | Some m \<Rightarrow> [(''metadata'', m)])
     @ (case c_userOutputSchema c of None \<Rightarrow> [] | Some s \<Rightarrow> [(''outputSchema'', s)])
     @ (if c_schemaVersion c \<noteq> [] then [(''schemaVersion'', JStr (c_schemaVersion c))] else [])
     @ (case c_maxOutputTokens c of None \<Rightarrow> [] | Some n \<Rightarrow> [(''maxOutputTokens'', n)])
     @ (case c_temperature c of None \<Rightarrow> [] | Some t \<Rightarrow> [(''temperature'', t)])"

text \<open>From the building of the payload on (lines 271 to 354). The text of the schema
  errors that ends the message of an invalid payload is left out.\<close>

definition call_remote ::
  "platform \<Rightarrow> (string \<rightharpoonup> string) \<Rightarrow> call \<Rightarrow> llm_world \<Rightarrow> (js_error + llm_world stage_result option) \<times> llm_world" where
  "call_remote P ev c w =
     (let payload = build_payload c in
      if \<not> validatePayload (JObj payload)
      then (Inl (Error ''llm_task.invoke payload invalid: ''), w)
      else
        (case (if c_transport c = Direct then buildDirectEndpoint P (c_baseUrl c)
               else buildClawdEndpoint P (c_clawdUrl c)) of
           Inl e \<Rightarrow> (Inl e, w)
         | Inr endpoint \<Rightarrow>
             (case (case c_userOutputSchema c of
                      None \<Rightarrow> Inr None
                    | Some s \<Rightarrow> (case ajv_compile P s of Inl e \<Rightarrow> Inl e | Inr v \<Rightarrow> Inr (Some v))) of
                Inl e \<Rightarrow> (Inl e, w)
              | Inr validator \<Rightarrow> attempt_loop P ev c endpoint validator payload 0 [] w)))"

text \<open>From the lookup in the cache on (lines 262 to 354).\<close>

definition after_state_lookup ::
  "platform \<Rightarrow> (string \<rightharpoonup> string) \<Rightarrow> call \<Rightarrow> llm_world \<Rightarrow> (js_error + llm_world stage_result option) \<times> llm_world" where
  "after_state_lookup P ev c w =
     (if \<not> c_disableCache c \<and> \<not> c_forceRefresh c then
        (case readCacheEntry P ev w (c_cacheKey c) of
           Inl e \<Rightarrow> (Inl e, w)
         | Inr None \<Rightarrow> call_remote P ev c w
         | Inr (Some cache) \<Rightarrow>
             if truthy cache then
               (case get_prop cache ''items'' of
                  Some (JArr xs) \<Rightarrow>
                    (Inr (Some \<lparr>stage_output = Some (asStream (map (mark_item ''cache'') xs)), halt = False,
                                 rendered = False\<rparr>), w)
                | _ \<Rightarrow> (Inl (TypeError []), w))
             else call_remote P ev c w)
      else call_remote P ev c w)"

definition llmTaskInvokeCommand_run ::
  "platform \<Rightarrow> llm_world stream \<Rightarrow> llm_args \<Rightarrow> ctx \<Rightarrow> llm_world
   \<Rightarrow> (js_error + llm_world stage_result option) \<times> llm_world" where
  "llmTaskInvokeCommand_run P input a cx w =
     (case derive_call P a (env cx) of
        Inl e \<Rightarrow> (Inl e, w)
      | Inr with_input \<Rightarrow>
          (case collectItems input w of
             (Inl e, w0) \<Rightarrow> (Inl e, w0)
           | (Inr inputArtifacts, w0) \<Rightarrow>
               (let c = with_input inputArtifacts in
                case (if c_forceRefresh c then None
                      else (case c_stateKey c of
                              None \<Rightarrow> None
                            | Some key \<Rightarrow> pickReusableState (readStateJson w0 key) (c_cacheKey c))) of
                  Some reused \<Rightarrow>
                    (Inr (Some \<lparr>stage_output = Some (asStream (map (mark_item ''run_state'') reused)),
                                 halt = False, rendered = False\<rparr>), w0)
                | None \<Rightarrow> after_state_lookup P (env cx) c w0)))"

section \<open>Example pipelines\<close>

text \<open>Small workflows on which the theorems below are tried. The world of the SDK examples
  is a log to which every effect adds a line; the world of the command line examples is the
  text on \<open>stdout\<close>.\<close>

type_synonym log = "string list"

definition emit_one :: "log stage" where
  "emit_one = Fn (\<lambda>xs cx w. (Inr (Value (Some (JArr [JObj [(''a'', JNum 1)]]))), w @ [''emit'']))"

text \<open>A generator function that wraps every item it reads; its body logs each item and its
  end.\<close>

primrec tagged :: "log stream \<Rightarrow> log stream"
  and tagged_pulled :: "log pulled \<Rightarrow> log pulled" where
  "tagged (Stream next) = Stream (\<lambda>w. tagged_pulled (next w))"
| "tagged_pulled (Done w) = Done (w @ [''tag end''])"
| "tagged_pulled (Throw e w) = Throw e w"
| "tagged_pulled (Yield x rest w) = Yield (JObj [(''tagged'', x)]) (tagged rest) (w @ [''tag''])"

definition tag :: "log stage" where
  "tag = GenFn (\<lambda>input cx. tagged input)"

definition failing :: "log stage" where
  "failing = Fn (\<lambda>xs cx w. (Inl (Error ''boom''), w @ [''fail'']))"

definition gate :: "log stage" where
  "gate = approve \<lparr>opt_prompt = Some (JStr ''ok?''), opt_preview = None\<rparr>"

text \<open>A generator function whose body throws at once, and a stage object that logs a line
  before it reads its input.\<close>

definition genBoom :: "log stage" where
  "genBoom = GenFn (\<lambda>input cx. Stream (Throw (Error ''boom'')))"

definition sideThenRead :: "log stage" where
  "sideThenRead =
     StageObj (\<lambda>input cx w.
       case collectItems input (w @ [''side'']) of
         (Inl e, w') \<Rightarrow> (Inl e, w')
       | (Inr xs, w') \<Rightarrow>
           (Inr (Some \<lparr>stage_output = Some (asStream xs), halt = False, rendered = False\<rparr>), w'))"

definition demo_ctx :: ctx where
  "demo_ctx = \<lparr>mode = ''tool'', env = Map.empty, stdin = None, stateDir = None\<rparr>"

definition demo_workflow :: "log Lobster" where
  "demo_workflow = \<lparr>stages = [emit_one, gate, tag, gate, failing], options_env = Map.empty,
                     options_stateDir = None\<rparr>"

text \<open>A command that yields 1 and then what its input yields, one that throws, and one
  whose output throws when it is read.\<close>

definition one_command :: "string command" where
  "one_command input as cx out =
     Some (Inr (Some \<lparr>stage_output = Some (Stream (Yield (JNum 1) input)), halt = False,
                       rendered = False\<rparr>), out @ ''one;'')"

definition failing_command :: "string command" where
  "failing_command input as cx out = Some (Inl (Error ''boom''), out @ ''fail;'')"

definition late_command :: "string command" where
  "late_command input as cx out =
     Some (Inr (Some \<lparr>stage_output = Some (Stream (Throw (Error ''late''))), halt = False,
                       rendered = False\<rparr>), out @ ''late;'')"

definition demo_registry :: "string registry" where
  "demo_registry = [''one'' \<mapsto> one_command, ''approve'' \<mapsto> approveCommand_run,
                    ''fail'' \<mapsto> failing_command, ''late'' \<mapsto> late_command]"

text \<open>A platform for \<open>llm_task.invoke\<close>: the digest is ten zeros and the length of the text,
  the compiled schema asks for a member \<open>decision\<close>, and the service answers the first request
  with data that lack it and every later one with data that have it.\<close>

definition demo_platform :: platform where
  "demo_platform =
     \<lparr>sha256 = (\<lambda>s. ''0000000000'' @ dec_nat (length s)),
      ajv_compile = (\<lambda>schema. Inr (\<lambda>v. case get_prop v ''decision'' of
                                           None \<Rightarrow> Some [([], Some ''must have required property decision'')]
                                         | Some d \<Rightarrow> None)),
      fetch = (\<lambda>rs req. Inr \<lparr>res_ok = True, res_status = 200, res_statusText = ''OK'',
                                res_text = (if rs = [] then ''{\"ok\":true,\"result\":{\"output\":{\"data\":{\"foo\":1}}}}''
                                            else ''{\"ok\":true,\"result\":{\"output\":{\"data\":{\"decision\":1}}}}'')\<rparr>),
      buildDirectEndpoint = (\<lambda>u. Inr (u @ ''/tool/invoke'')),
      buildClawdEndpoint = (\<lambda>u. Inr (u @ ''/tools/invoke'')),
      cwd = ''/w''\<rparr>"

definition demo_args :: llm_args where
  "demo_args =
     \<lparr>arg_url = Some ''http://h'', arg_token = None, arg_prompt = Some ''Decide'',
      arg_model = Some ''m'', arg_artifacts_json = None, arg_metadata_json = None,
      arg_output_schema = Some ''{\"required\":[\"decision\"]}'', arg_schema_version = None,
      arg_max_validation_retries = Some 0, arg_temperature = None, arg_max_output_tokens = None,
      arg_state_key = Some ''run1'', arg_refresh = None, arg_disable_cache = Some True,
      arg_positional = None\<rparr>"

definition demo_world :: llm_world where
  "demo_world = \<lparr>run_state = Map.empty, cache_files = Map.empty, requests = [], clock = ''t''\<rparr>"

definition demo_call :: call where
  "demo_call =
     \<lparr>c_transport = Direct, c_baseUrl = ''http://h'', c_clawdUrl = [],
      c_prompt = ''Decide'', c_model = ''m'', c_schemaVersion = ''v1'',
      c_maxOutputTokens = None, c_temperature = None, c_metadataObject = None,
      c_userOutputSchema = Some (JObj [(''required'', JArr [JStr ''decision''])]),
      c_maxValidationRetries = 0, c_disableCache = True, c_forceRefresh = False,
      c_stateKey = Some ''run1'', c_normalizedArtifacts = [], c_artifactHashes = [],
      c_cacheKey = ''0000000000113'', c_token = []\<rparr>"


section \<open>Values that survive printing and parsing\<close>

text \<open>
  A value is serializable when every number it holds that is written with a fraction or an
  exponent is a literal that \<open>JSON.parse\<close> reads as that number, and no object has two
  members of the same name (as no JavaScript object has). The other definitions of this
  section are used in the proofs about the parser: a text is delimited when it is empty or
  starts with a comma or a closing bracket, and \<open>starts_value\<close> is true of what a printed value
  begins with.
\<close>

fun serializable :: "json \<Rightarrow> bool" where
  "serializable (JFloat lit) = (parse_number lit = Some (JFloat lit, []))"
| "serializable (JArr xs) = list_all serializable xs"
| "serializable (JObj kvs) = (distinct (map fst kvs) \<and> list_all (\<lambda>(k, v). serializable v) kvs)"
| "serializable _ = True"

definition starts_value :: "string \<Rightarrow> bool" where
  "starts_value s \<longleftrightarrow> (case s of [] \<Rightarrow> False | c # _ \<Rightarrow> \<not> is_ws c \<and> c \<noteq> CHR '']'' \<and> c \<noteq> CHR ''}'')"

definition delimited :: "string \<Rightarrow> bool" where
  "delimited rest \<longleftrightarrow> (case rest of [] \<Rightarrow> True | c # _ \<Rightarrow> c = CHR '','' \<or> c = CHR '']'' \<or> c = CHR ''}'')"

definition member_text :: "string \<times> json \<Rightarrow> string" where
  "member_text = (\<lambda>(k, v). quote k @ CHR '':'' # JSON_stringify v)"

definition roundtrips :: "json \<Rightarrow> bool" where
  "roundtrips v \<longleftrightarrow> (\<forall>n rest. delimited rest \<longrightarrow> length (JSON_stringify v) \<le> n
       \<longrightarrow> parse_value n (JSON_stringify v @ rest) = Ok v rest)"

section \<open>Tokens issued by a workflow\<close>

text \<open>
  \<open>issued this token i its\<close>: the token was returned by a halt of \<open>run\<close>, or of a \<open>resume\<close>
  made with a token issued before; \<open>i\<close> is the place, in the full list of stages, of the stage
  that halted, and \<open>its\<close> are the items of its approval request. The place is read from the
  runner: for \<open>run\<close> it is where the run of all the stages halted; for a \<open>resume\<close> made with a
  token issued at place \<open>i\<close>, the stages that remain are those after place \<open>i\<close>, and when their
  run on the approved items halts at its place \<open>j\<close>, that stage is at place \<open>i + 1 + j\<close> of the
  full list. The items and the prompt of the approval request are serializable values.
  \<open>halt_payload\<close> is the object both \<open>run\<close> and \<open>resume\<close> encode.
\<close>

definition serializable_opt :: "json option \<Rightarrow> bool" where
  "serializable_opt v = (case v of None \<Rightarrow> True | Some x \<Rightarrow> serializable x)"

inductive issued :: "'w Lobster \<Rightarrow> string \<Rightarrow> nat \<Rightarrow> json option \<Rightarrow> bool" for this :: "'w Lobster" where
  by_run:
    "Lobster_run this initialInput w = (res, tr, w') \<Longrightarrow> requiresApproval res = Some a
     \<Longrightarrow> runPipelineInternal (stages this) (sdk_ctx this) (or_empty_array initialInput) w
           = (Inr result, tr, w')
     \<Longrightarrow> haltedAt result = Some i
     \<Longrightarrow> serializable_opt (approval_items a) \<Longrightarrow> serializable_opt (approval_prompt a)
     \<Longrightarrow> issued this (resumeToken a) i (approval_items a)"
| by_resume:
    "issued this token i its \<Longrightarrow> Lobster_resume this token True w = Some (Inr res, tr, w')
     \<Longrightarrow> requiresApproval res = Some a
     \<Longrightarrow> runPipelineInternal (drop (Suc i) (stages this)) (sdk_ctx this)
             (Value (Some (nullish its (JArr [])))) w = (Inr result, tr, w')
     \<Longrightarrow> haltedAt result = Some j
     \<Longrightarrow> serializable_opt (approval_items a) \<Longrightarrow> serializable_opt (approval_prompt a)
     \<Longrightarrow> issued this (resumeToken a) (Suc i + j) (approval_items a)"

definition halt_payload :: "int \<Rightarrow> json option \<Rightarrow> json option \<Rightarrow> json" where
  "halt_payload stageIndex its pr =
     object_literal [(''protocolVersion'', Some (JNum 1)), (''v'', Some (JNum 1)),
                     (''stageIndex'', Some (JNum stageIndex)),
                     (''resumeAtIndex'', Some (JNum (stageIndex + 1))),
                     (''items'', its), (''prompt'', pr)]"

section \<open>Printing and parsing a value\<close>

subsection \<open>Numbers\<close>

lemma char_of_48: "char_of (48::nat) = CHR ''0''"
  by code_simp

lemma of_char_digit_char: "n < 10 \<Longrightarrow> (of_char (digit_char n) :: nat) = 48 + n"
  by (simp add: digit_char_def)

lemma is_digit_digit_char: "n < 10 \<Longrightarrow> is_digit (digit_char n)"
  by (simp add: is_digit_def of_char_digit_char)

lemma digit_val_digit_char: "n < 10 \<Longrightarrow> digit_val (digit_char n) = n"
  by (simp add: digit_val_def of_char_digit_char)

lemma dec_nat_digits: "list_all is_digit (dec_nat n)"
  by (induction n rule: dec_nat.induct) (subst dec_nat.simps, simp add: is_digit_digit_char)

lemma dec_nat_nonempty: "dec_nat n \<noteq> []"
  by (subst dec_nat.simps) simp

lemma nat_of_digits_snoc: "nat_of_digits (ds @ [c]) = 10 * nat_of_digits ds + digit_val c"
  by (simp add: nat_of_digits_def)

lemma nat_of_digits_dec_nat: "nat_of_digits (dec_nat n) = n"
proof (induction n rule: dec_nat.induct)
  case (1 n)
  show ?case
  proof (cases "n < 10")
    case True
    then show ?thesis by (subst dec_nat.simps) (simp add: nat_of_digits_def digit_val_digit_char)
  next
    case False
    with 1 show ?thesis
      by (subst dec_nat.simps) (simp add: nat_of_digits_snoc digit_val_digit_char)
  qed
qed

lemma hd_dec_nat: "hd (dec_nat n) = CHR ''0'' \<Longrightarrow> dec_nat n = ''0''"
proof (induction n rule: dec_nat.induct)
  case (1 n)
  show ?case
  proof (cases "n < 10")
    case True
    with 1 have "digit_char n = CHR ''0''" by (subst (asm) dec_nat.simps) simp
    then have "(of_char (digit_char n) :: nat) = 48" by simp
    with True have "n = 0" by (simp add: of_char_digit_char)
    then show ?thesis by (subst dec_nat.simps) (simp add: digit_char_def char_of_48)
  next
    case False
    then have e: "dec_nat n = dec_nat (n div 10) @ [digit_char (n mod 10)]"
      by (subst dec_nat.simps) simp
    with 1(2) dec_nat_nonempty [of "n div 10"] have "hd (dec_nat (n div 10)) = CHR ''0''"
      by simp
    with 1(1) False have "dec_nat (n div 10) = ''0''" by simp
    then have "nat_of_digits (dec_nat (n div 10)) = 0" by (simp add: nat_of_digits_def digit_val_def)
    then have "n div 10 = 0" by (simp add: nat_of_digits_dec_nat)
    with False show ?thesis by simp
  qed
qed

lemma delimited_not_digit: "delimited (c # r) \<Longrightarrow> \<not> is_digit c"
  by (auto simp: delimited_def is_digit_def)

lemma takeWhile_digits:
  assumes "list_all is_digit ds" "delimited rest"
  shows "takeWhile is_digit (ds @ rest) = ds" "dropWhile is_digit (ds @ rest) = rest"
proof -
  have t: "takeWhile is_digit rest = []" "dropWhile is_digit rest = rest"
    using assms(2) by (cases rest; auto dest: delimited_not_digit)+
  from assms(1) have "\<And>x. x \<in> set ds \<Longrightarrow> is_digit x" by (simp add: list_all_iff)
  then show "takeWhile is_digit (ds @ rest) = ds" "dropWhile is_digit (ds @ rest) = rest"
    using t by (simp_all add: takeWhile_append2 dropWhile_append2)
qed

lemma parse_frac_delimited: "delimited rest \<Longrightarrow> parse_frac rest = Some ([], rest)"
  by (cases rest) (auto simp: parse_frac_def delimited_def)

lemma parse_exp_delimited: "delimited rest \<Longrightarrow> parse_exp rest = Some ([], rest)"
  by (cases rest) (auto simp: parse_exp_def delimited_def)

lemma digits_before_delimiter:
  assumes "delimited rest"
  shows "takeWhile is_digit (xs @ rest) = takeWhile is_digit xs"
    and "dropWhile is_digit (xs @ rest) = dropWhile is_digit xs @ rest"
proof -
  have t: "takeWhile is_digit rest = []" "dropWhile is_digit rest = rest"
    using assms by (cases rest; auto dest: delimited_not_digit)+
  show "takeWhile is_digit (xs @ rest) = takeWhile is_digit xs"
    by (induction xs) (simp_all add: t)
  show "dropWhile is_digit (xs @ rest) = dropWhile is_digit xs @ rest"
    by (induction xs) (simp_all add: t)
qed

lemma parse_frac_append:
  assumes "delimited rest" "parse_frac r = Some (fr, r2)"
  shows "parse_frac (r @ rest) = Some (fr, r2 @ rest)"
proof (cases r)
  case Nil
  with assms show ?thesis by (simp add: parse_frac_delimited) (simp add: parse_frac_def)
next
  case (Cons c r')
  with assms(2) show ?thesis
    by (auto simp: parse_frac_def digits_before_delimiter [OF assms(1)] split: if_splits)
qed

lemma parse_exp_append:
  assumes "delimited rest" "parse_exp r = Some (ex, r2)"
  shows "parse_exp (r @ rest) = Some (ex, r2 @ rest)"
proof (cases r)
  case Nil
  with assms show ?thesis by (simp add: parse_exp_delimited) (simp add: parse_exp_def)
next
  case (Cons e r')
  show ?thesis
  proof (cases r')
    case Nil
    with Cons assms(2) show ?thesis by (auto simp: parse_exp_def split: if_splits)
  next
    case (Cons c t)
    with \<open>r = e # r'\<close> assms(2) show ?thesis
      by (auto simp: parse_exp_def Let_def digits_before_delimiter [OF assms(1)]
               digits_before_delimiter [OF assms(1), of "c # t", simplified]
               split: if_splits)
  qed
qed

lemma parse_number_append:
  assumes d: "delimited rest" and p: "parse_number s = Some (v, r3)"
  shows "parse_number (s @ rest) = Some (v, r3 @ rest)"
proof -
  define neg where "neg = (case s of [] \<Rightarrow> False | c # r \<Rightarrow> c = CHR ''-'')"
  define s1 where "s1 = (case s of [] \<Rightarrow> s | c # r \<Rightarrow> if c = CHR ''-'' then r else s)"
  have split: "(case s of [] \<Rightarrow> (False, s) | c # r \<Rightarrow> if c = CHR ''-'' then (True, r) else (False, s)) = (neg, s1)"
    by (cases s) (auto simp: neg_def s1_def)
  have ne: "s \<noteq> []" using p by (auto simp: parse_number_def)
  have split': "(case s @ rest of [] \<Rightarrow> (False, s @ rest) | c # r \<Rightarrow> if c = CHR ''-'' then (True, r) else (False, s @ rest))
      = (neg, s1 @ rest)"
    using ne by (cases s) (auto simp: neg_def s1_def)
  let ?ds = "takeWhile is_digit s1" and ?r1 = "dropWhile is_digit s1"
  from p have ok: "\<not> (?ds = [] \<or> (hd ?ds = CHR ''0'' \<and> 1 < length ?ds))"
    unfolding parse_number_def split by (auto simp: Let_def split: if_splits)
  from p ok obtain fr r2 where fr: "parse_frac ?r1 = Some (fr, r2)"
    unfolding parse_number_def split by (cases "parse_frac ?r1") (auto simp: Let_def)
  from p ok fr obtain ex r3' where ex: "parse_exp r2 = Some (ex, r3')"
    unfolding parse_number_def split by (cases "parse_exp r2") (auto simp: Let_def)
  from p ok fr ex have v: "r3' = r3"
    "v = (if fr = [] \<and> ex = [] then JNum (if neg then - int (nat_of_digits ?ds) else int (nat_of_digits ?ds))
          else JFloat ((if neg then ''-'' else []) @ ?ds @ fr @ ex))"
    unfolding parse_number_def split by (auto simp: Let_def split: if_splits)
  have fr': "parse_frac (?r1 @ rest) = Some (fr, r2 @ rest)" using d fr by (rule parse_frac_append)
  have ex': "parse_exp (r2 @ rest) = Some (ex, r3 @ rest)" using d ex v(1) by (simp add: parse_exp_append)
  show ?thesis
    unfolding parse_number_def split'
    using ok fr' ex' v(2) by (simp add: Let_def digits_before_delimiter [OF d])
qed

lemma parse_number_head:
  assumes "parse_number s = Some (v, r)"
  shows "\<exists>c cs. s = c # cs \<and> (c = CHR ''-'' \<or> is_digit c)"
proof (cases s)
  case Nil
  with assms show ?thesis by (simp add: parse_number_def)
next
  case (Cons c cs)
  show ?thesis
  proof (cases "c = CHR ''-''")
    case True
    with Cons show ?thesis by simp
  next
    case False
    with assms Cons have "takeWhile is_digit (c # cs) \<noteq> []"
      by (auto simp: parse_number_def Let_def split: if_splits)
    then have "is_digit c" by (auto split: if_splits)
    with Cons show ?thesis by simp
  qed
qed

lemma dec_nat_hd_digit: "is_digit (hd (dec_nat n))"
  using dec_nat_digits [of n] dec_nat_nonempty [of n] by (cases "dec_nat n") simp_all

lemma dec_nat_no_leading_zero: "\<not> (hd (dec_nat n) = CHR ''0'' \<and> 1 < length (dec_nat n))"
  using hd_dec_nat [of n] by auto

lemma parse_digits:
  assumes "delimited rest"
  shows "parse_number (dec_nat n @ rest) = Some (JNum (int n), rest)"
proof -
  obtain d ds where d: "dec_nat n = d # ds" using dec_nat_nonempty [of n] by (cases "dec_nat n") auto
  with dec_nat_hd_digit [of n] have "is_digit d" by simp
  then have nm: "d \<noteq> CHR ''-''" by (auto simp: is_digit_def)
  have tw: "takeWhile is_digit (d # ds @ rest) = d # ds" "dropWhile is_digit (d # ds @ rest) = rest"
    using takeWhile_digits [OF dec_nat_digits [of n] assms] d by simp_all
  from dec_nat_no_leading_zero [of n] d have lz: "\<not> (d = CHR ''0'' \<and> ds \<noteq> [])" by auto
  have "nat_of_digits (d # ds) = n" using nat_of_digits_dec_nat [of n] d by simp
  then show ?thesis
    using nm lz unfolding parse_number_def d
    by (auto simp: Let_def tw parse_frac_delimited [OF assms] parse_exp_delimited [OF assms] simp del: takeWhile.simps dropWhile.simps)
qed

lemma parse_neg_digits:
  assumes "delimited rest"
  shows "parse_number (CHR ''-'' # dec_nat n @ rest) = Some (JNum (- int n), rest)"
proof -
  obtain d ds where d: "dec_nat n = d # ds" using dec_nat_nonempty [of n] by (cases "dec_nat n") auto
  have tw: "takeWhile is_digit (d # ds @ rest) = d # ds" "dropWhile is_digit (d # ds @ rest) = rest"
    using takeWhile_digits [OF dec_nat_digits [of n] assms] d by simp_all
  from dec_nat_no_leading_zero [of n] d have lz: "\<not> (d = CHR ''0'' \<and> ds \<noteq> [])" by auto
  have "nat_of_digits (d # ds) = n" using nat_of_digits_dec_nat [of n] d by simp
  then show ?thesis
    using lz unfolding parse_number_def d
    by (auto simp: Let_def tw parse_frac_delimited [OF assms] parse_exp_delimited [OF assms] simp del: takeWhile.simps dropWhile.simps)
qed

lemma parse_number_roundtrip:
  "delimited rest \<Longrightarrow> parse_number (Number_toString i @ rest) = Some (JNum i, rest)"
  using parse_digits [of rest "nat i"] parse_neg_digits [of rest "nat (- i)"]
  by (auto simp: Number_toString_def)

subsection \<open>String literals\<close>

lemma char_eq_nat: "c = d \<longleftrightarrow> (of_char c :: nat) = of_char d"
  by (simp only: of_char_eq_iff)

lemma hex_val_hex_char: "k < 16 \<Longrightarrow> hex_val (hex_char k) = Some k"
  by (auto simp: hex_val_def hex_char_def Let_def)

lemma hex_val_0: "hex_val CHR ''0'' = Some 0"
  by (simp add: hex_val_def)

lemma hex4_low: "n < 256 \<Longrightarrow> hex4 CHR ''0'' CHR ''0'' (hex_char (n div 16)) (hex_char (n mod 16)) = Some n"
  by (simp add: hex4_def hex_val_0 hex_val_hex_char)

lemma parse_string_escape:
  assumes "parse_string t = Some (s, rest)"
  shows "parse_string (escape_char c @ t) = Some (c # s, rest)"
proof -
  define n where "n = (of_char c :: nat)"
  have c: "c = char_of n" by (simp add: n_def)
  consider (quote) "c = CHR 0x22" | (bs) "c = CHR 0x5C"
    | (b) "n = 8" | (f) "n = 12" | (nl) "n = 10" | (r) "n = 13" | (t) "n = 9"
    | (ctl) "n < 32" "n \<noteq> 8" "n \<noteq> 12" "n \<noteq> 10" "n \<noteq> 13" "n \<noteq> 9"
    | (plain) "32 \<le> n" "c \<noteq> CHR 0x22" "c \<noteq> CHR 0x5C"
    by linarith
  then show ?thesis
  proof cases
    case quote
    then show ?thesis using assms by (simp add: escape_char_def unescape_def)
  next
    case bs
    then show ?thesis using assms by (simp add: escape_char_def unescape_def)
  next
    case b
    then have "c = char_of (8::nat)" using c by simp
    then show ?thesis using assms by (simp add: escape_char_def unescape_def)
  next
    case f
    then have "c = char_of (12::nat)" using c by simp
    then show ?thesis using assms by (simp add: escape_char_def unescape_def)
  next
    case nl
    then have "c = char_of (10::nat)" using c by simp
    then show ?thesis using assms by (simp add: escape_char_def unescape_def)
  next
    case r
    then have "c = char_of (13::nat)" using c by simp
    then show ?thesis using assms by (simp add: escape_char_def unescape_def)
  next
    case t
    then have "c = char_of (9::nat)" using c by simp
    then show ?thesis using assms by (simp add: escape_char_def unescape_def)
  next
    case ctl
    have nq: "c \<noteq> CHR 0x22" "c \<noteq> CHR 0x5C" using ctl(1) by (auto simp: n_def)
    have e: "escape_char c = [CHR 0x5C, CHR ''u'', CHR ''0'', CHR ''0'', hex_char (n div 16), hex_char (n mod 16)]"
      using ctl nq by (simp add: escape_char_def n_def [symmetric])
    have h: "hex4 CHR ''0'' CHR ''0'' (hex_char (n div 16)) (hex_char (n mod 16)) = Some n"
      using ctl(1) by (intro hex4_low) simp
    have u: "utf8_of_unit n = [c]" using ctl(1) c by (simp add: utf8_of_unit_def)
    show ?thesis using assms by (simp add: e h u)
  next
    case plain
    then have "escape_char c = [c]"
      by (auto simp: escape_char_def n_def [symmetric])
    then show ?thesis using assms plain by (simp add: n_def [symmetric])
  qed
qed

lemma parse_string_roundtrip:
  "parse_string (concat (map escape_char s) @ CHR 0x22 # rest) = Some (s, rest)"
  by (induction s) (simp_all add: parse_string_escape del: parse_string.simps, simp)

lemma parse_quote: "quote s @ rest = CHR 0x22 # u \<Longrightarrow> parse_string u = Some (s, rest)"
  using parse_string_roundtrip [of s rest] by (simp add: quote_def)

subsection \<open>Values\<close>

lemma starts_value_append: "starts_value s \<Longrightarrow> starts_value (s @ t)"
  by (cases s) (auto simp: starts_value_def)

lemma starts_value_skip_ws: "starts_value s \<Longrightarrow> skip_ws s = s"
  by (cases s) (auto simp: starts_value_def skip_ws_def)

lemma dec_nat_hd: "\<exists>d ds. dec_nat n = d # ds \<and> is_digit d"
  using dec_nat_hd_digit [of n] dec_nat_nonempty [of n] by (cases "dec_nat n") auto

lemma starts_value_stringify: "serializable v \<Longrightarrow> starts_value (JSON_stringify v)"
proof (cases v)
  case (JNum i)
  obtain d ds where "dec_nat (nat i) = d # ds" "is_digit d" using dec_nat_hd by blast
  moreover obtain d' ds' where "dec_nat (nat (- i)) = d' # ds'" using dec_nat_hd by blast
  ultimately show ?thesis using JNum
    by (auto simp: starts_value_def Number_toString_def is_ws_def is_digit_def)
next
  case (JFloat lit)
  assume "serializable v"
  with JFloat have "parse_number lit = Some (JFloat lit, [])" by simp
  from parse_number_head [OF this] JFloat show ?thesis
    by (auto simp: starts_value_def is_ws_def is_digit_def)
qed (auto simp: starts_value_def is_ws_def quote_def)

lemma foldl_obj_set_distinct:
  "distinct (map fst (acc @ kvs)) \<Longrightarrow> foldl (\<lambda>acc (k, v). obj_set acc k v) acc kvs = acc @ kvs"
proof (induction kvs arbitrary: acc)
  case Nil
  then show ?case by simp
next
  case (Cons kv kvs)
  obtain k v where kv: "kv = (k, v)" by (cases kv)
  have "obj_set acc k v = acc @ [(k, v)]" if "k \<notin> fst ` set acc" for acc :: object
    using that by (induction acc) auto
  with Cons.prems kv have "obj_set acc k v = acc @ [(k, v)]" by auto
  with Cons.IH [of "acc @ [kv]"] Cons.prems kv show ?case by simp
qed

lemma elements_roundtrip:
  assumes "xs \<noteq> []" "\<And>x. x \<in> set xs \<Longrightarrow> roundtrips x \<and> serializable x"
    and "length (join_comma (map JSON_stringify xs)) < m"
  shows "parse_elements m (join_comma (map JSON_stringify xs) @ CHR '']'' # rest) = Ok xs rest"
  using assms
proof (induction xs arbitrary: m rule: list_nonempty_induct)
  case (single x)
  then obtain m' where m: "m = Suc m'" by (cases m) auto
  have "delimited (CHR '']'' # rest)" by (simp add: delimited_def)
  with single m have "parse_value m' (JSON_stringify x @ CHR '']'' # rest) = Ok x (CHR '']'' # rest)"
    by (simp add: roundtrips_def)
  then show ?case using m by (simp add: skip_ws_def is_ws_def)
next
  case (cons x xs)
  then obtain m' where m: "m = Suc m'" by (cases m) auto
  obtain y ys where xs: "xs = y # ys" using cons.hyps(1) by (cases xs) auto
  let ?tail = "join_comma (map JSON_stringify xs) @ CHR '']'' # rest"
  have j: "join_comma (map JSON_stringify (x # xs)) = JSON_stringify x @ CHR '','' # join_comma (map JSON_stringify xs)"
    using xs by simp
  have d: "delimited (CHR '','' # ?tail)" by (simp add: delimited_def)
  have pv: "parse_value m' (JSON_stringify x @ CHR '','' # ?tail) = Ok x (CHR '','' # ?tail)"
    using cons.prems(1) [of x] d cons.prems(2) m unfolding roundtrips_def j by simp
  have "starts_value (JSON_stringify y)" using cons.prems(1) [of y] xs by (simp add: starts_value_stringify)
  then have "starts_value ?tail" using xs by (cases ys) (auto intro: starts_value_append)
  then have sk: "skip_ws ?tail = ?tail" by (rule starts_value_skip_ws)
  have "parse_elements m' ?tail = Ok xs rest"
  proof (rule cons.IH)
    show "\<And>x. x \<in> set xs \<Longrightarrow> roundtrips x \<and> serializable x"
      using cons.prems(1) by auto
    show "length (join_comma (map JSON_stringify xs)) < m'"
      using cons.prems(2) m unfolding j by simp
  qed
  then show ?case using m pv sk unfolding j by (simp add: skip_ws_def is_ws_def)
qed

lemma starts_value_member: "starts_value (member_text kv @ t)"
  by (cases kv) (simp add: member_text_def starts_value_def quote_def is_ws_def)

lemma skip_ws_punct:
  "skip_ws (CHR '':'' # t) = CHR '':'' # t" "skip_ws (CHR '','' # t) = CHR '','' # t"
  "skip_ws (CHR ''}'' # t) = CHR ''}'' # t" "skip_ws (CHR '']'' # t) = CHR '']'' # t"
  by (simp_all add: skip_ws_def is_ws_def)

lemma parse_members_step:
  assumes pv: "parse_value m' (JSON_stringify v @ t) = Ok v t" and sv: "serializable v"
  shows "parse_members (Suc m') (member_text (k, v) @ t) =
     (case skip_ws t of
        [] \<Rightarrow> Fail
      | c' # r4 \<Rightarrow>
          if c' = CHR ''}'' then Ok [(k, v)] r4
          else if c' = CHR '','' then
            (case parse_members m' (skip_ws r4) of
               Ok kvs u \<Rightarrow> Ok ((k, v) # kvs) u
             | Fail \<Rightarrow> Fail
             | OutOfFuel \<Rightarrow> OutOfFuel)
          else Fail)"
proof -
  have sk: "skip_ws (JSON_stringify v @ t) = JSON_stringify v @ t"
    using sv by (intro starts_value_skip_ws starts_value_append starts_value_stringify)
  have ps: "parse_string (concat (map escape_char k) @ CHR 0x22 # CHR '':'' # JSON_stringify v @ t)
      = Some (k, CHR '':'' # JSON_stringify v @ t)"
    by (rule parse_string_roundtrip)
  show ?thesis
    by (simp add: member_text_def quote_def ps sk pv skip_ws_punct del: parse_string.simps)
qed

lemma members_roundtrip:
  assumes "kvs \<noteq> []" "\<And>k v. (k, v) \<in> set kvs \<Longrightarrow> roundtrips v \<and> serializable v"
    and "length (join_comma (map member_text kvs)) < m"
  shows "parse_members m (join_comma (map member_text kvs) @ CHR ''}'' # rest) = Ok kvs rest"
  using assms
proof (induction kvs arbitrary: m rule: list_nonempty_induct)
  case (single kv)
  obtain k v where kv: "kv = (k, v)" by (cases kv)
  from single obtain m' where m: "m = Suc m'" by (cases m) auto
  have d: "delimited (CHR ''}'' # rest)" by (simp add: delimited_def)
  have len: "length (JSON_stringify v) \<le> m'" using single(2) m kv by (simp add: member_text_def)
  have sv: "serializable v" using single(1) [of k v] kv by simp
  have pv: "parse_value m' (JSON_stringify v @ CHR ''}'' # rest) = Ok v (CHR ''}'' # rest)"
    using single(1) [of k v] kv d len by (simp add: roundtrips_def)
  show ?case unfolding m kv using parse_members_step [OF pv sv, of k]
    by (simp add: skip_ws_punct)
next
  case (cons kv kvs)
  obtain k v where kv: "kv = (k, v)" by (cases kv)
  from cons obtain m' where m: "m = Suc m'" by (cases m) auto
  obtain y ys where kvs: "kvs = y # ys" using cons.hyps(1) by (cases kvs) auto
  let ?tail = "join_comma (map member_text kvs) @ CHR ''}'' # rest"
  have j: "join_comma (map member_text (kv # kvs)) = member_text kv @ CHR '','' # join_comma (map member_text kvs)"
    using kvs by simp
  have d: "delimited (CHR '','' # ?tail)" by (simp add: delimited_def)
  have len: "length (JSON_stringify v) \<le> m'" using cons.prems(2) m kv unfolding j by (simp add: member_text_def)
  have sv: "serializable v" using cons.prems(1) [of k v] kv by simp
  have pv: "parse_value m' (JSON_stringify v @ CHR '','' # ?tail) = Ok v (CHR '','' # ?tail)"
    using cons.prems(1) [of k v] kv d len by (simp add: roundtrips_def)
  have "starts_value ?tail" using kvs starts_value_member [of y] by (cases ys) (auto intro: starts_value_append)
  then have sk: "skip_ws ?tail = ?tail" by (rule starts_value_skip_ws)
  have ih: "parse_members m' ?tail = Ok kvs rest"
  proof (rule cons.IH)
    show "\<And>k v. (k, v) \<in> set kvs \<Longrightarrow> roundtrips v \<and> serializable v"
      using cons.prems(1) by auto
    show "length (join_comma (map member_text kvs)) < m'"
      using cons.prems(2) m unfolding j by simp
  qed
  have "parse_members (Suc m') (member_text (k, v) @ CHR '','' # ?tail) = Ok ((k, v) # kvs) rest"
    using parse_members_step [OF pv sv, of k] by (simp add: skip_ws_punct sk ih)
  then show ?case unfolding m kv j [unfolded kv] by simp
qed

lemma stringify_roundtrips: "serializable v \<Longrightarrow> roundtrips v"
proof (induction v)
  case JNull
  show ?case unfolding roundtrips_def
  proof (intro allI impI)
    fix n rest assume "length (JSON_stringify JNull) \<le> n"
    then obtain n' where "n = Suc n'" by (cases n) auto
    then show "parse_value n (JSON_stringify JNull @ rest) = Ok JNull rest" by simp
  qed
next
  case (JBool b)
  show ?case unfolding roundtrips_def
  proof (intro allI impI)
    fix n rest assume "length (JSON_stringify (JBool b)) \<le> n"
    then obtain n' where "n = Suc n'" by (cases n) (auto split: if_splits)
    then show "parse_value n (JSON_stringify (JBool b) @ rest) = Ok (JBool b) rest" by simp
  qed
next
  case (JNum i)
  show ?case unfolding roundtrips_def
  proof (intro allI impI)
    fix n rest assume d: "delimited rest" and "length (JSON_stringify (JNum i)) \<le> n"
    moreover have "starts_value (JSON_stringify (JNum i))" by (rule starts_value_stringify) simp
    ultimately obtain n' where n: "n = Suc n'" by (cases n) (auto simp: starts_value_def)
    obtain d0 ds where dd: "dec_nat (nat i) = d0 # ds" "is_digit d0" using dec_nat_hd by blast
    obtain d1 ds1 where dn: "dec_nat (nat (- i)) = d1 # ds1" using dec_nat_hd by blast
    obtain c cs where s: "Number_toString i = c # cs" and c: "c = CHR ''-'' \<or> is_digit c"
      using dd dn by (cases "i < 0") (auto simp: Number_toString_def)
    from c have ne: "c \<noteq> CHR ''{''" "c \<noteq> CHR ''[''" "c \<noteq> CHR 0x22" "c \<noteq> CHR ''t''" "c \<noteq> CHR ''f''" "c \<noteq> CHR ''n''"
      by (auto simp: is_digit_def)
    have "parse_number (c # cs @ rest) = Some (JNum i, rest)"
      using parse_number_roundtrip [OF d, of i] s by simp
    then show "parse_value n (JSON_stringify (JNum i) @ rest) = Ok (JNum i) rest"
      using n s ne by simp
  qed
next
  case (JFloat lit)
  then have p: "parse_number lit = Some (JFloat lit, [])" by simp
  show ?case unfolding roundtrips_def
  proof (intro allI impI)
    fix n rest assume d: "delimited rest" and len: "length (JSON_stringify (JFloat lit)) \<le> n"
    obtain c cs where s: "lit = c # cs" and c: "c = CHR ''-'' \<or> is_digit c"
      using parse_number_head [OF p] by blast
    from len s obtain n' where n: "n = Suc n'" by (cases n) auto
    from c have ne: "c \<noteq> CHR ''{''" "c \<noteq> CHR ''[''" "c \<noteq> CHR 0x22" "c \<noteq> CHR ''t''" "c \<noteq> CHR ''f''" "c \<noteq> CHR ''n''"
      by (auto simp: is_digit_def)
    have "parse_number (c # cs @ rest) = Some (JFloat lit, rest)"
      using parse_number_append [OF d p] s by simp
    then show "parse_value n (JSON_stringify (JFloat lit) @ rest) = Ok (JFloat lit) rest"
      using n s ne by simp
  qed
next
  case (JStr s)
  show ?case unfolding roundtrips_def
  proof (intro allI impI)
    fix n rest assume "length (JSON_stringify (JStr s)) \<le> n"
    then obtain n' where "n = Suc n'" by (cases n) (auto simp: quote_def)
    then show "parse_value n (JSON_stringify (JStr s) @ rest) = Ok (JStr s) rest"
      by (simp add: quote_def parse_string_roundtrip del: parse_string.simps)
  qed
next
  case (JArr xs)
  show ?case unfolding roundtrips_def
  proof (intro allI impI)
    fix n rest assume len: "length (JSON_stringify (JArr xs)) \<le> n"
    then obtain n' where n: "n = Suc n'" by (cases n) auto
    show "parse_value n (JSON_stringify (JArr xs) @ rest) = Ok (JArr xs) rest"
    proof (cases xs)
      case Nil
      then show ?thesis using n by (simp add: skip_ws_def is_ws_def)
    next
      case (Cons y ys)
      let ?body = "join_comma (map JSON_stringify xs) @ CHR '']'' # rest"
      have rt: "\<And>x. x \<in> set xs \<Longrightarrow> roundtrips x \<and> serializable x"
        using JArr by (auto simp: list_all_iff)
      have "starts_value (JSON_stringify y)" using rt [of y] Cons by (simp add: starts_value_stringify)
      then have sv: "starts_value ?body" using Cons by (cases ys) (auto intro: starts_value_append)
      then obtain c r where b: "?body = c # r" and c: "c \<noteq> CHR '']''" by (cases ?body) (auto simp: starts_value_def)
      have sk: "skip_ws ?body = ?body" using sv by (rule starts_value_skip_ws)
      have ne: "xs \<noteq> []" using Cons by simp
      have l: "length (join_comma (map JSON_stringify xs)) < n'"
        using len n by simp
      have "parse_elements n' ?body = Ok xs rest"
        using ne rt l by (rule elements_roundtrip)
      then show ?thesis using n sk b c by simp
    qed
  qed
next
  case (JObj kvs)
  show ?case unfolding roundtrips_def
  proof (intro allI impI)
    fix n rest assume len: "length (JSON_stringify (JObj kvs)) \<le> n"
    then obtain n' where n: "n = Suc n'" by (cases n) auto
    have mt: "map (\<lambda>(k, v). quote k @ CHR '':'' # JSON_stringify v) kvs = map member_text kvs"
      by (simp add: member_text_def)
    show "parse_value n (JSON_stringify (JObj kvs) @ rest) = Ok (JObj kvs) rest"
    proof (cases kvs)
      case Nil
      then show ?thesis using n by (simp add: skip_ws_def is_ws_def)
    next
      case (Cons y ys)
      let ?body = "join_comma (map member_text kvs) @ CHR ''}'' # rest"
      have rt: "\<And>k v. (k, v) \<in> set kvs \<Longrightarrow> roundtrips v \<and> serializable v"
      proof -
        fix k v assume kv: "(k, v) \<in> set kvs"
        with JObj.prems have s: "serializable v" by (auto simp: list_all_iff)
        with JObj.IH [of "(k, v)" v] kv show "roundtrips v \<and> serializable v" by simp
      qed
      have sv: "starts_value ?body" using Cons starts_value_member [of y] by (cases ys) (auto intro: starts_value_append)
      then obtain c r where b: "?body = c # r" and c: "c \<noteq> CHR ''}''" by (cases ?body) (auto simp: starts_value_def)
      have sk: "skip_ws ?body = ?body" using sv by (rule starts_value_skip_ws)
      have ne: "kvs \<noteq> []" using Cons by simp
      have l: "length (join_comma (map member_text kvs)) < n'"
        using len n by (simp add: mt)
      have pm: "parse_members n' ?body = Ok kvs rest"
        using ne rt l by (rule members_roundtrip)
      have "foldl (\<lambda>acc (k, v). obj_set acc k v) [] kvs = kvs"
        using foldl_obj_set_distinct [of "[]" kvs] JObj.prems by simp
      then show ?thesis using n sk b c pm by (simp add: mt)
    qed
  qed
qed

lemma JSON_parse_stringify: "serializable v \<Longrightarrow> JSON_parse (JSON_stringify v) = Inr v"
proof -
  assume s: "serializable v"
  have sk: "skip_ws (JSON_stringify v) = JSON_stringify v"
    using s by (intro starts_value_skip_ws starts_value_stringify)
  have d: "delimited []" by (simp add: delimited_def)
  have l: "length (JSON_stringify v) \<le> 2 * length (JSON_stringify v) + 1" by simp
  from stringify_roundtrips [OF s, unfolded roundtrips_def, rule_format, OF d l]
  have "parse_value (2 * length (JSON_stringify v) + 1) (JSON_stringify v) = Ok v []"
    by (simp only: append_Nil2)
  then show ?thesis by (simp only: JSON_parse_def sk) (simp add: skip_ws_def)
qed

section \<open>The token codec\<close>

lemma sextet_bounds:
  fixes a b c :: nat
  assumes "a < 256" "b < 256" "c < 256"
  shows "a div 4 < 64" "a mod 4 * 16 < 64" "a mod 4 * 16 + b div 16 < 64" "b mod 16 * 4 < 64"
    "b mod 16 * 4 + c div 64 < 64" "c mod 64 < 64"
proof -
  have m: "a mod 4 < 4" "b mod 16 < 16" by simp_all
  have d: "b div 16 < 16" "c div 64 < 4" using assms by simp_all
  show "a div 4 < 64" using assms by simp
  show "a mod 4 * 16 < 64" using m by linarith
  show "a mod 4 * 16 + b div 16 < 64" using m d by linarith
  show "b mod 16 * 4 < 64" using m by linarith
  show "b mod 16 * 4 + c div 64 < 64" using m d by linarith
  show "c mod 64 < 64" by simp
qed

lemma sextets_bound: "x \<in> set (sextets b) \<Longrightarrow> x < 64"
proof (induction b arbitrary: x rule: sextets.induct)
  case (2 a)
  have "(of_char a :: nat) < 256" by simp
  from sextet_bounds [OF this this this] 2 show ?case by auto
next
  case (3 a b)
  have "(of_char a :: nat) < 256" "(of_char b :: nat) < 256" by simp_all
  from sextet_bounds [OF this this(1)] 3 show ?case by auto
next
  case (4 a b c r)
  have "(of_char a :: nat) < 256" "(of_char b :: nat) < 256" "(of_char c :: nat) < 256" by simp_all
  from sextet_bounds [OF this] 4 show ?case by auto
qed simp

lemma of_char_char_of_small: "n < 256 \<Longrightarrow> (of_char (char_of (n::nat)) :: nat) = n"
  by simp

lemma unbase64_b64_char: "n < 64 \<Longrightarrow> unbase64 (b64_char n) = Some n"
proof -
  assume n: "n < 64"
  consider "n < 26" | "26 \<le> n" "n < 52" | "52 \<le> n" "n < 62" | "n = 62" | "n = 63"
    using n by linarith
  then show ?thesis
  proof cases
    case 1
    then show ?thesis by (simp add: unbase64_def b64_char_def Let_def)
  next
    case 2
    then show ?thesis by (simp add: unbase64_def b64_char_def Let_def)
  next
    case 3
    define m where "m = n - 4"
    have m: "48 \<le> m" "m \<le> 57" "n = m + 4" using 3 by (simp_all add: m_def)
    have "b64_char n = char_of m" using 3 by (simp add: b64_char_def m_def)
    moreover have "unbase64 (char_of m) = Some (m + 4)" using m(1,2) by (simp add: unbase64_def Let_def)
    ultimately show ?thesis using m(3) by simp
  next
    case 4
    then show ?thesis by (simp add: unbase64_def b64_char_def Let_def)
  next
    case 5
    then show ?thesis by (simp add: unbase64_def b64_char_def Let_def)
  qed
qed

lemma b64_char_not_pad: "n < 64 \<Longrightarrow> b64_char n \<noteq> CHR ''=''"
  using unbase64_b64_char [of n] by (auto simp: unbase64_def)

lemma map_filter_unbase64: "(\<And>x. x \<in> set xs \<Longrightarrow> x < 64) \<Longrightarrow> List.map_filter unbase64 (map b64_char xs) = xs"
  by (induction xs) (simp_all add: List.map_filter_simps unbase64_b64_char)

lemma takeWhile_not_pad: "(\<And>x. x \<in> set xs \<Longrightarrow> x < 64) \<Longrightarrow> takeWhile (\<lambda>c. c \<noteq> CHR ''='') (map b64_char xs) = map b64_char xs"
  by (induction xs) (simp_all add: b64_char_not_pad)

lemma div_mod_glue:
  fixes k x :: nat
  shows "x < 16 \<Longrightarrow> (k * 16 + x) div 16 = k" "x < 16 \<Longrightarrow> (k * 16 + x) mod 16 = x"
    "x < 4 \<Longrightarrow> (k * 4 + x) div 4 = k" "x < 4 \<Longrightarrow> (k * 4 + x) mod 4 = x"
  by simp_all

lemma byte_glue:
  fixes a b c :: nat
  assumes "b < 256" "c < 256"
  shows "a div 4 * 4 + (a mod 4 * 16 + b div 16) div 16 = a"
    and "(a mod 4 * 16 + b div 16) mod 16 * 16 + (b mod 16 * 4 + c div 64) div 4 = b"
    and "(b mod 16 * 4 + c div 64) mod 4 * 64 + c mod 64 = c"
proof -
  have x: "b div 16 < 16" using assms(1) by simp
  have z: "c div 64 < 4" using assms(2) by simp
  show "a div 4 * 4 + (a mod 4 * 16 + b div 16) div 16 = a"
    by (simp only: div_mod_glue(1) [OF x] div_mult_mod_eq)
  show "(a mod 4 * 16 + b div 16) mod 16 * 16 + (b mod 16 * 4 + c div 64) div 4 = b"
    by (simp only: div_mod_glue(2) [OF x] div_mod_glue(3) [OF z] div_mult_mod_eq)
  show "(b mod 16 * 4 + c div 64) mod 4 * 64 + c mod 64 = c"
    by (simp only: div_mod_glue(4) [OF z] div_mult_mod_eq)
qed

lemma byte_glue_last:
  fixes a b :: nat
  assumes "b < 256"
  shows "(a mod 4 * 16 + b div 16) mod 16 * 16 + (b mod 16 * 4) div 4 = b"
    and "a div 4 * 4 + (a mod 4 * 16) div 16 = a"
proof -
  have x: "b div 16 < 16" using assms(1) by simp
  have "(b mod 16 * 4) div 4 = b mod 16" by simp
  then show "(a mod 4 * 16 + b div 16) mod 16 * 16 + (b mod 16 * 4) div 4 = b"
    by (simp only: div_mod_glue(2) [OF x] div_mult_mod_eq)
  have "(a mod 4 * 16) div 16 = a mod 4" by simp
  then show "a div 4 * 4 + (a mod 4 * 16) div 16 = a"
    by (simp only: div_mult_mod_eq)
qed

lemma unsextets_sextets: "unsextets (sextets b) = b"
proof (induction b rule: sextets.induct)
  case 1
  show ?case by simp
next
  case (2 a)
  show ?case using byte_glue_last(2) [of 0 "of_char a"] by simp
next
  case (3 a b)
  have "(of_char b :: nat) < 256" by simp
  from byte_glue(1) [OF this this, of "of_char a"] byte_glue_last(1) [OF this, of "of_char a"]
  show ?case by simp
next
  case (4 a b c r)
  have "(of_char b :: nat) < 256" "(of_char c :: nat) < 256" by simp_all
  from byte_glue(1) [OF this, of "of_char a"] byte_glue(2) [OF this, of "of_char a"]
    byte_glue(3) [OF this] 4
  show ?case by simp
qed

lemma base64url_roundtrip: "Buffer_from_base64url (Buffer_toString_base64url b) = b"
  by (simp add: Buffer_from_base64url_def Buffer_toString_base64url_def takeWhile_not_pad
      map_filter_unbase64 sextets_bound unsextets_sextets)

lemma decode_encode: "serializable d \<Longrightarrow> decodeToken (encodeToken d) = Inr d"
  by (simp add: decodeToken_def encodeToken_def Buffer_from_utf8_def Buffer_toString_utf8_def
      base64url_roundtrip JSON_parse_stringify)

text \<open>
  Claim C1. For every serializable value \<open>d\<close> (a halt descriptor is one; its numbers may
  have fractions and exponents), decoding the token that \<open>encodeToken\<close> makes of \<open>d\<close> succeeds
  and returns \<open>d\<close>.
\<close>

theorem token_roundtrip:
  "serializable d \<Longrightarrow> decodeToken (encodeToken d) = Inr d"
  by (rule decode_encode)

theorem token_roundtrip_witness:
  "serializable (JObj [(''stageIndex'', JNum 1), (''resumeIndex'', JNum 2),
                       (''pendingItems'', JArr [JObj [(''price'', JFloat ''1.5'')], JStr ''x'', JNull,
                                                JFloat ''-2e+10'', JNum (- 7), JBool True]),
                       (''prompt'', JStr ''ok?'')])
   \<and> encodeToken (JObj [(''stageIndex'', JNum 1), (''resumeIndex'', JNum 2),
                       (''pendingItems'', JArr [JObj [(''price'', JFloat ''1.5'')], JStr ''x'', JNull,
                                                JFloat ''-2e+10'', JNum (- 7), JBool True]),
                       (''prompt'', JStr ''ok?'')])
     = ''eyJzdGFnZUluZGV4IjoxLCJyZXN1bWVJbmRleCI6MiwicGVuZGluZ0l0ZW1zIjpbeyJwcmljZSI6MS41fSwieCIsbnVsbCwtMmUrMTAsLTcsdHJ1ZV0sInByb21wdCI6Im9rPyJ9''
   \<and> decodeToken ''eyJzdGFnZUluZGV4IjoxLCJyZXN1bWVJbmRleCI6MiwicGVuZGluZ0l0ZW1zIjpbeyJwcmljZSI6MS41fSwieCIsbnVsbCwtMmUrMTAsLTcsdHJ1ZV0sInByb21wdCI6Im9rPyJ9''
     = Inr (JObj [(''stageIndex'', JNum 1), (''resumeIndex'', JNum 2),
                       (''pendingItems'', JArr [JObj [(''price'', JFloat ''1.5'')], JStr ''x'', JNull,
                                                JFloat ''-2e+10'', JNum (- 7), JBool True]),
                       (''prompt'', JStr ''ok?'')])"
proof -
  let ?d = "JObj [(''stageIndex'', JNum 1), (''resumeIndex'', JNum 2),
                       (''pendingItems'', JArr [JObj [(''price'', JFloat ''1.5'')], JStr ''x'', JNull,
                                                JFloat ''-2e+10'', JNum (- 7), JBool True]),
                       (''prompt'', JStr ''ok?'')]"
  have s: "serializable ?d" by code_simp
  have e: "encodeToken ?d = ''eyJzdGFnZUluZGV4IjoxLCJyZXN1bWVJbmRleCI6MiwicGVuZGluZ0l0ZW1zIjpbeyJwcmljZSI6MS41fSwieCIsbnVsbCwtMmUrMTAsLTcsdHJ1ZV0sInByb21wdCI6Im9rPyJ9''"
    by code_simp
  from token_roundtrip [OF s] s e show ?thesis by simp
qed

text \<open>
  Claim C4, as the code has it. For every string, \<open>decodeToken\<close> either returns the value
  that \<open>JSON.parse\<close> reads from the decoded bytes, whole, or fails with the one error
  \<open>Invalid token\<close>, and it fails exactly when \<open>JSON.parse\<close> fails on those bytes; no other
  error leaves it. It does not look for a version member.
\<close>

theorem decodeToken_all_or_nothing:
  "(\<exists>v. JSON_parse (Buffer_toString_utf8 (Buffer_from_base64url token)) = Inr v
        \<and> decodeToken token = Inr v)
   \<or> ((\<exists>e. JSON_parse (Buffer_toString_utf8 (Buffer_from_base64url token)) = Inl e)
        \<and> decodeToken token = Inl (Error ''Invalid token''))"
  by (cases "JSON_parse (Buffer_toString_utf8 (Buffer_from_base64url token))")
     (simp_all add: decodeToken_def)

text \<open>
  Claim C4 as it is written says that a token without a version member fails to decode.
  The token of \<open>{"a":1}\<close> has none and decodes.
\<close>

theorem decodeToken_unversioned_succeeds:
  "decodeToken ''eyJhIjoxfQ'' = Inr (JObj [(''a'', JNum 1)])
   \<and> get_prop (JObj [(''a'', JNum 1)]) ''v'' = None
   \<and> get_prop (JObj [(''a'', JNum 1)]) ''protocolVersion'' = None"
  by code_simp

section \<open>The runners stop at a halt\<close>



lemma call_stage_result:
  "call_stage st idx stream cx tr w = (Inr res, tr', w') \<Longrightarrow> tr' = tr @ [idx]"
  by (cases st) (auto split: prod.splits sum.splits)

lemma call_stage_halt:
  "call_stage st idx stream cx tr w = (Inr res, tr', w') \<Longrightarrow> result_halt res \<Longrightarrow> \<exists>run. st = StageObj run"
  by (cases st) (auto simp: result_halt_def split: prod.splits sum.splits)

lemma call_stage_error:
  "call_stage st idx stream cx tr w = (Inl e, tr', w') \<Longrightarrow> tr' = tr \<or> tr' = tr @ [idx]"
  by (cases st) (auto split: prod.splits sum.splits)

lemma internal_loop_append:
  "runPipelineInternal_loop cx idx (pre @ post) stream tr w =
     (case runPipelineInternal_loop cx idx pre stream tr w of
        (Inl e, tr', w') \<Rightarrow> (Inl e, tr', w')
      | (Inr (s, Some i), tr', w') \<Rightarrow> (Inr (s, Some i), tr', w')
      | (Inr (s, None), tr', w') \<Rightarrow> runPipelineInternal_loop cx (idx + length pre) post s tr' w')"
  by (induction pre arbitrary: idx stream tr w) (auto split: prod.splits sum.splits option.splits)

lemma internal_loop_trace:
  "runPipelineInternal_loop cx idx sts stream tr w = (Inr (s, at), tr', w') \<Longrightarrow>
     (case at of
        Some k \<Rightarrow> \<exists>i < length sts. k = idx + i \<and> tr' = tr @ [idx ..< Suc (idx + i)]
                     \<and> (\<exists>run. sts ! i = StageObj run)
      | None \<Rightarrow> tr' = tr @ [idx ..< idx + length sts])"
proof (induction sts arbitrary: idx stream tr w)
  case Nil
  then show ?case by auto
next
  case (Cons st sts)
  obtain res tr1 w1 where cs: "call_stage st idx stream cx tr w = (res, tr1, w1)"
    by (cases "call_stage st idx stream cx tr w")
  from Cons.prems cs obtain result where res: "res = Inr result"
    by (cases res) auto
  have tr1: "tr1 = tr @ [idx]" using cs res by (auto dest: call_stage_result)
  show ?case
  proof (cases "result_halt result")
    case True
    then obtain run where "st = StageObj run" using cs res by (auto dest: call_stage_halt)
    with True Cons.prems cs res tr1 show ?thesis by auto
  next
    case False
    with Cons.prems cs res tr1
    have rec: "runPipelineInternal_loop cx (Suc idx) sts (result_output result) (tr @ [idx]) w1
                 = (Inr (s, at), tr', w')"
      by auto
    show ?thesis
    proof (cases at)
      case None
      with Cons.IH [OF rec] show ?thesis by (simp add: upt_conv_Cons del: upt_Suc)
    next
      case (Some k)
      with Cons.IH [OF rec] obtain i where i: "i < length sts" "k = Suc idx + i"
        "tr' = (tr @ [idx]) @ [Suc idx ..< Suc (Suc idx + i)]" "\<exists>run. sts ! i = StageObj run"
        by auto
      have "tr' = tr @ [idx ..< Suc (idx + Suc i)]" using i(3) by (simp add: upt_conv_Cons del: upt_Suc)
      with i Some show ?thesis by (auto intro!: exI [of _ "Suc i"])
    qed
  qed
qed

lemma internal_loop_error_trace:
  "runPipelineInternal_loop cx idx sts stream tr w = (Inl e, tr', w') \<Longrightarrow>
     \<exists>n \<le> length sts. tr' = tr @ [idx ..< idx + n]"
proof (induction sts arbitrary: idx stream tr w)
  case Nil
  then show ?case by simp
next
  case (Cons st sts)
  obtain res tr1 w1 where cs: "call_stage st idx stream cx tr w = (res, tr1, w1)"
    by (cases "call_stage st idx stream cx tr w")
  show ?case
  proof (cases res)
    case (Inl e')
    with Cons.prems cs have "tr' = tr1" by simp
    moreover from cs Inl have "tr1 = tr \<or> tr1 = tr @ [idx]" by (auto dest: call_stage_error)
    ultimately have "tr' = tr @ [idx ..< idx + 0] \<or> tr' = tr @ [idx ..< idx + 1]" by auto
    then show ?thesis by (metis le0 length_Cons less_eq_Suc_le zero_less_Suc One_nat_def)
  next
    case (Inr result)
    with cs have tr1: "tr1 = tr @ [idx]" by (auto dest: call_stage_result)
    from Cons.prems cs Inr have nh: "\<not> result_halt result" by (auto split: if_splits)
    with Cons.prems cs Inr tr1
    have "runPipelineInternal_loop cx (Suc idx) sts (result_output result) (tr @ [idx]) w1 = (Inl e, tr', w')"
      by auto
    from Cons.IH [OF this] obtain n where n: "n \<le> length sts" "tr' = (tr @ [idx]) @ [Suc idx ..< Suc idx + n]"
      by blast
    have "tr' = tr @ [idx ..< idx + Suc n]" using n(2) by (simp add: upt_conv_Cons del: upt_Suc)
    with n(1) show ?thesis by (intro exI [of _ "Suc n"]) simp
  qed
qed

lemma internal_prefix:
  assumes "runPipelineInternal_loop cx 0 pre stream [] w = (Inr (s, None), tr0, w0)"
  shows "tr0 = [0 ..< length pre]"
    and "runPipelineInternal_loop cx 0 (pre @ post) stream [] w
           = runPipelineInternal_loop cx (length pre) post s [0 ..< length pre] w0"
proof -
  from internal_loop_trace [OF assms] show t: "tr0 = [0 ..< length pre]" by simp
  from assms t show "runPipelineInternal_loop cx 0 (pre @ post) stream [] w
           = runPipelineInternal_loop cx (length pre) post s [0 ..< length pre] w0"
    by (simp add: internal_loop_append)
qed

lemma cli_loop_append:
  "runPipeline_loop registry cx idx (pre @ post) stream rend tr w =
     (case runPipeline_loop registry cx idx pre stream rend tr w of
        None \<Rightarrow> None
      | Some (Inl e, tr', w') \<Rightarrow> Some (Inl e, tr', w')
      | Some (Inr (s, rend', Some i), tr', w') \<Rightarrow> Some (Inr (s, rend', Some i), tr', w')
      | Some (Inr (s, rend', None), tr', w') \<Rightarrow>
          runPipeline_loop registry cx (idx + length pre) post s rend' tr' w')"
  by (induction pre arbitrary: idx stream rend tr w)
     (auto split: prod.splits sum.splits option.splits)

lemma cli_loop_trace:
  "runPipeline_loop registry cx idx sts stream rend tr w = Some (Inr (s, rend', at), tr', w') \<Longrightarrow>
     (case at of
        Some k \<Rightarrow> \<exists>i < length sts. k = idx + i \<and> tr' = tr @ [idx ..< Suc (idx + i)]
      | None \<Rightarrow> tr' = tr @ [idx ..< idx + length sts])"
proof (induction sts arbitrary: idx stream rend tr w)
  case Nil
  then show ?case by auto
next
  case (Cons st sts)
  from Cons.prems obtain command where cmd: "registry (name st) = Some command"
    by (cases "registry (name st)") auto
  from Cons.prems cmd obtain res w1 where cs: "command stream (args st) cx w = Some (res, w1)"
    by (cases "command stream (args st) cx w") auto
  from Cons.prems cmd cs obtain result where res: "res = Inr result"
    by (cases res) auto
  show ?case
  proof (cases "result_halt result")
    case True
    with Cons.prems cmd cs res show ?thesis by auto
  next
    case False
    with Cons.prems cmd cs res
    have rec: "runPipeline_loop registry cx (Suc idx) sts (result_output result)
            (rend \<or> result_rendered result) (tr @ [idx]) w1 = Some (Inr (s, rend', at), tr', w')"
      by auto
    show ?thesis
    proof (cases at)
      case None
      with Cons.IH [OF rec] show ?thesis by (simp add: upt_conv_Cons del: upt_Suc)
    next
      case (Some k)
      with Cons.IH [OF rec] obtain i where i: "i < length sts" "k = Suc idx + i"
        "tr' = (tr @ [idx]) @ [Suc idx ..< Suc (Suc idx + i)]"
        by auto
      have "tr' = tr @ [idx ..< Suc (idx + Suc i)]" using i(3) by (simp add: upt_conv_Cons del: upt_Suc)
      with i Some show ?thesis by (auto intro!: exI [of _ "Suc i"])
    qed
  qed
qed

lemma cli_prefix:
  assumes "runPipeline_loop registry cx 0 pre stream False [] w = Some (Inr (s, rend, None), tr0, w0)"
  shows "tr0 = [0 ..< length pre]"
    and "runPipeline_loop registry cx 0 (pre @ post) stream False [] w
           = runPipeline_loop registry cx (length pre) post s rend [0 ..< length pre] w0"
proof -
  from cli_loop_trace [OF assms] show t: "tr0 = [0 ..< length pre]" by simp
  from assms t show "runPipeline_loop registry cx 0 (pre @ post) stream False [] w
           = runPipeline_loop registry cx (length pre) post s rend [0 ..< length pre] w0"
    by (simp add: cli_loop_append)
qed



section \<open>Declining an approval\<close>

text \<open>
  Claim C9. For every workflow, token and world, \<open>resume\<close> with \<open>approved = false\<close> returns the
  cancelled result (\<open>ok\<close>, status \<open>cancelled\<close>, no output), calls no stage and leaves the world
  as it is; the token is not looked at (the equation holds for tokens that do not decode as
  well). A second call, made in the world the first one left, returns the same.
\<close>

theorem resume_not_approved_cancelled:
  "Lobster_resume this token False w = Some (Inr cancelled_result, [], w)
   \<and> ok cancelled_result \<and> status cancelled_result = ''cancelled''
   \<and> lobster_output cancelled_result = []
   \<and> (case Lobster_resume this token False w of
         None \<Rightarrow> False
       | Some (r, tr, w') \<Rightarrow> Lobster_resume this token False w' = Some (r, tr, w'))"
  by (simp add: Lobster_resume_def cancelled_result_def)

section \<open>The approval gate outside an interactive terminal\<close>

text \<open>
  Claim C10, as the code has it. The \<open>approve\<close> command first reads its input to the end.
  When that succeeds and \<open>--emit\<close> is set, or \<open>ctx.mode\<close> is \<open>tool\<close>, or \<open>ctx.stdin\<close> is not a
  terminal, it signals halt and yields exactly one item
  \<open>{ type: 'approval_request', prompt, items }\<close> whose \<open>items\<close> are the items read, in their
  order (for the empty input too); nothing is written and no item is passed through. The
  \<open>approve\<close> stage of the SDK halts in every mode; its one item also has \<open>itemCount\<close>, the
  number of the items read, and its \<open>items\<close> are empty when the stage was made with
  \<open>preview: false\<close>. When reading the input throws, the command and the stage throw that error
  and do not halt.
\<close>

theorem approve_halts_with_request:
  "(collectItems input out = (Inr its, out1)
      \<and> ((case obj_get args' ''emit'' of None \<Rightarrow> False | Some v \<Rightarrow> truthy v)
           \<or> mode cx = ''tool''
           \<or> (\<exists>sin. stdin cx = Some sin \<and> \<not> isTTY sin))
    \<longrightarrow> approveCommand_run input args' cx out =
          Some (Inr (Some \<lparr>stage_output =
                             Some (asStream [JObj [(''type'', JStr ''approval_request''),
                                                   (''prompt'', nullish (obj_get args' ''prompt'') (JStr ''Approve?'')),
                                                   (''items'', JArr its)]]),
                           halt = True, rendered = False\<rparr>), out1))
   \<and> (collectItems input out = (Inl e, out1)
    \<longrightarrow> approveCommand_run input args' cx out = Some (Inl e, out1))
   \<and> (collectItems sinput w = (Inr sits, w1)
    \<longrightarrow> (\<exists>run. approve options = StageObj run
           \<and> run sinput cx w =
               (Inr (Some \<lparr>stage_output =
                              Some (asStream [JObj [(''type'', JStr ''approval_request''),
                                                    (''prompt'', nullish (opt_prompt options) (JStr ''Approve?'')),
                                                    (''items'', JArr (if opt_preview options = Some (JBool False)
                                                                      then [] else sits)),
                                                    (''itemCount'', JNum (int (length sits)))]]),
                            halt = True, rendered = False\<rparr>), w1)))
   \<and> (collectItems sinput w = (Inl e', w1)
    \<longrightarrow> (\<exists>run. approve options = StageObj run \<and> run sinput cx w = (Inl e', w1)))"
  by (auto simp: approveCommand_run_def approve_def isInteractive_def Let_def split: option.splits)

theorem approve_halts_with_request_witness:
  "approveCommand_run (asStream [JNum 1, JStr ''b'']) [(''prompt'', JStr ''go?'')] demo_ctx ''x'' =
     Some (Inr (Some \<lparr>stage_output =
                        Some (asStream [JObj [(''type'', JStr ''approval_request''),
                                              (''prompt'', JStr ''go?''),
                                              (''items'', JArr [JNum 1, JStr ''b''])]]),
                      halt = True, rendered = False\<rparr>), ''x'')
   \<and> approveCommand_run (asStream []) []
        \<lparr>mode = ''human'', env = Map.empty, stdin = Some \<lparr>isTTY = False, data = []\<rparr>, stateDir = None\<rparr> ''x'' =
     Some (Inr (Some \<lparr>stage_output =
                        Some (asStream [JObj [(''type'', JStr ''approval_request''),
                                              (''prompt'', JStr ''Approve?''),
                                              (''items'', JArr [])]]),
                      halt = True, rendered = False\<rparr>), ''x'')
   \<and> approveCommand_run (asStream [JNull]) [(''emit'', JBool True)]
        \<lparr>mode = ''human'', env = Map.empty, stdin = Some \<lparr>isTTY = True, data = []\<rparr>, stateDir = None\<rparr> ''x'' =
     Some (Inr (Some \<lparr>stage_output =
                        Some (asStream [JObj [(''type'', JStr ''approval_request''),
                                              (''prompt'', JStr ''Approve?''),
                                              (''items'', JArr [JNull])]]),
                      halt = True, rendered = False\<rparr>), ''x'')
   \<and> approveCommand_run (Stream (Yield (JNum 1) (Stream (Throw (Error ''boom''))))) [] demo_ctx ''x'' =
     Some (Inl (Error ''boom''), ''x'')
   \<and> call_stage gate 0 (tagged (asStream [JNum 1, JNum 2])) demo_ctx [] [] =
       (Inr (Some \<lparr>stage_output =
                      Some (asStream [JObj [(''type'', JStr ''approval_request''),
                                            (''prompt'', JStr ''ok?''),
                                            (''items'', JArr [JObj [(''tagged'', JNum 1)],
                                                              JObj [(''tagged'', JNum 2)]]),
                                            (''itemCount'', JNum 2)]]),
                    halt = True, rendered = False\<rparr>), [0], [''tag'', ''tag'', ''tag end''])
   \<and> call_stage gate 0 (Stream (Throw (Error ''boom''))) demo_ctx [] [] = (Inl (Error ''boom''), [0], [])"
proof -
  let ?human = "\<lparr>mode = ''human'', env = Map.empty, stdin = Some \<lparr>isTTY = False, data = []\<rparr>, stateDir = None\<rparr>"
  let ?opts = "\<lparr>opt_prompt = Some (JStr ''ok?''), opt_preview = None\<rparr>"
  have a: "approveCommand_run (asStream [JNum 1, JStr ''b'']) [(''prompt'', JStr ''go?'')] demo_ctx ''x'' =
     Some (Inr (Some \<lparr>stage_output =
                        Some (asStream [JObj [(''type'', JStr ''approval_request''),
                                              (''prompt'', JStr ''go?''),
                                              (''items'', JArr [JNum 1, JStr ''b''])]]),
                      halt = True, rendered = False\<rparr>), ''x'')"
    using approve_halts_with_request [where input = "asStream [JNum 1, JStr ''b'']" and out = "''x''"
        and its = "[JNum 1, JStr ''b'']" and ?out1.0 = "''x''" and args' = "[(''prompt'', JStr ''go?'')]"
        and cx = demo_ctx, THEN conjunct1, rule_format]
    by (simp add: demo_ctx_def)
  have b: "approveCommand_run (asStream []) [] ?human ''x'' =
     Some (Inr (Some \<lparr>stage_output =
                        Some (asStream [JObj [(''type'', JStr ''approval_request''),
                                              (''prompt'', JStr ''Approve?''),
                                              (''items'', JArr [])]]),
                      halt = True, rendered = False\<rparr>), ''x'')"
    using approve_halts_with_request [where input = "asStream []" and out = "''x''"
        and its = "[]" and ?out1.0 = "''x''" and args' = "[]" and cx = ?human, THEN conjunct1, rule_format]
    by simp
  have b': "approveCommand_run (asStream [JNull]) [(''emit'', JBool True)]
        \<lparr>mode = ''human'', env = Map.empty, stdin = Some \<lparr>isTTY = True, data = []\<rparr>, stateDir = None\<rparr> ''x'' =
     Some (Inr (Some \<lparr>stage_output =
                        Some (asStream [JObj [(''type'', JStr ''approval_request''),
                                              (''prompt'', JStr ''Approve?''),
                                              (''items'', JArr [JNull])]]),
                      halt = True, rendered = False\<rparr>), ''x'')"
    using approve_halts_with_request [where input = "asStream [JNull]" and out = "''x''"
        and its = "[JNull]" and ?out1.0 = "''x''" and args' = "[(''emit'', JBool True)]"
        and cx = "\<lparr>mode = ''human'', env = Map.empty, stdin = Some \<lparr>isTTY = True, data = []\<rparr>, stateDir = None\<rparr>",
        THEN conjunct1, rule_format]
    by simp
  have c: "approveCommand_run (Stream (Yield (JNum 1) (Stream (Throw (Error ''boom''))))) [] demo_ctx ''x'' =
     Some (Inl (Error ''boom''), ''x'')"
    using approve_halts_with_request [where input = "Stream (Yield (JNum 1) (Stream (Throw (Error ''boom''))))"
        and out = "''x''" and e = "Error ''boom''" and ?out1.0 = "''x''" and args' = "[]" and cx = demo_ctx,
        THEN conjunct2, THEN conjunct1, rule_format]
    by simp
  have d: "call_stage gate 0 (tagged (asStream [JNum 1, JNum 2])) demo_ctx [] [] =
       (Inr (Some \<lparr>stage_output =
                      Some (asStream [JObj [(''type'', JStr ''approval_request''),
                                            (''prompt'', JStr ''ok?''),
                                            (''items'', JArr [JObj [(''tagged'', JNum 1)],
                                                              JObj [(''tagged'', JNum 2)]]),
                                            (''itemCount'', JNum 2)]]),
                    halt = True, rendered = False\<rparr>), [0], [''tag'', ''tag'', ''tag end''])"
    using approve_halts_with_request [where sinput = "tagged (asStream [JNum 1, JNum 2])" and w = "[]"
        and sits = "[JObj [(''tagged'', JNum 1)], JObj [(''tagged'', JNum 2)]]"
        and ?w1.0 = "[''tag'', ''tag'', ''tag end'']" and options = ?opts and cx = demo_ctx,
        THEN conjunct2, THEN conjunct2, THEN conjunct1, rule_format]
    by (auto simp: gate_def)
  have e: "call_stage gate 0 (Stream (Throw (Error ''boom''))) demo_ctx [] [] = (Inl (Error ''boom''), [0], [])"
    using approve_halts_with_request [where sinput = "Stream (Throw (Error ''boom''))" and w = "[] :: log"
        and e' = "Error ''boom''" and ?w1.0 = "[]" and options = ?opts and cx = demo_ctx,
        THEN conjunct2, THEN conjunct2, THEN conjunct2, rule_format]
    by (auto simp: gate_def)
  from a b b' c d e show ?thesis by simp
qed

text \<open>
  Claim C10 as it is written gives the item the shape \<open>{ type, prompt, items }\<close> with all the
  items read, for the stage of the SDK as well. Made with \<open>preview: false\<close> and run in tool
  mode on the items 1 and 2, that stage yields an item with no items and an \<open>itemCount\<close>.
\<close>

theorem approve_request_without_items:
  "runPipelineInternal [approve \<lparr>opt_prompt = None, opt_preview = Some (JBool False)\<rparr>] demo_ctx
     (Value (Some (JArr [JNum 1, JNum 2]))) ([] :: log) =
     (Inr \<lparr>items = [JObj [(''type'', JStr ''approval_request''), (''prompt'', JStr ''Approve?''),
                           (''items'', JArr []), (''itemCount'', JNum 2)]],
           halted = True, haltedAt = Some 0\<rparr>, [0], [])
   \<and> mode demo_ctx = ''tool''"
  by code_simp

section \<open>A stage that raises an error\<close>

lemma decode_resume_at_4: "decodeToken ''eyJyZXN1bWVBdEluZGV4Ijo0fQ'' = Inr (JObj [(''resumeAtIndex'', JNum 4)])"
  by code_simp

text \<open>
  Claim C8, as the code has it. Suppose the loop has gone through the stages \<open>pre\<close> without a
  halt and has left the stream \<open>s\<close>. When the \<open>run\<close> of the next stage raises an error, or the
  next stage is a plain function and it, or the reading of \<open>s\<close> before its call, raises an
  error, both runners stop there: they return the error and no items, whatever stages follow,
  and no further stage is called. The same holds when the reading of the last stream, after
  the loop, raises an error. In every run that ends in an error the stages called are an
  initial part of the pipeline. The runners do not catch the error; \<open>Lobster.run\<close> and
  \<open>Lobster.resume\<close> do, and return the result \<open>{ ok: false, status: 'error', output: [],
  requiresApproval: null, error: { type: 'runtime_error', message } }\<close>. Nothing is said
  here of the stages called before the error is raised: a stage that follows a generator
  function has been called by the time the body of the generator runs.
\<close>

theorem stage_error_ends_run:
  "(runPipelineInternal_loop cx 0 pre (toAsyncIterable (or_empty_array input)) [] w
        = (Inr (s, None), tr0, w0)
      \<and> run s cx w0 = (Inl e, w1)
    \<longrightarrow> (\<forall>post. runPipelineInternal (pre @ StageObj run # post) cx input w =
           (Inl e, [0 ..< Suc (length pre)], w1)))
   \<and> (runPipelineInternal_loop cx 0 pre (toAsyncIterable (or_empty_array input)) [] w
        = (Inr (s, None), tr0, w0)
      \<and> collectItems s w0 = (Inr its, w1) \<and> f its cx w1 = (Inl e, w2)
    \<longrightarrow> (\<forall>post. runPipelineInternal (pre @ Fn f # post) cx input w =
           (Inl e, [0 ..< Suc (length pre)], w2)))
   \<and> (runPipelineInternal_loop cx 0 pre (toAsyncIterable (or_empty_array input)) [] w
        = (Inr (s, None), tr0, w0)
      \<and> collectItems s w0 = (Inl e, w1)
    \<longrightarrow> (\<forall>post. runPipelineInternal (pre @ Fn f # post) cx input w =
           (Inl e, [0 ..< length pre], w1)))
   \<and> (runPipelineInternal_loop cx 0 sts (toAsyncIterable (or_empty_array input)) [] w
        = (Inr (s, at), tr, w0)
      \<and> collectItems s w0 = (Inl e, w1)
    \<longrightarrow> runPipelineInternal sts cx input w = (Inl e, tr, w1))
   \<and> (runPipelineInternal sts cx input w = (Inl e, tr, w')
    \<longrightarrow> (\<exists>n \<le> length sts. tr = [0 ..< n]))
   \<and> (runPipeline_loop registry cx 0 cpre (case cinput of None \<Rightarrow> emptyStream | Some i \<Rightarrow> i) False [] v
        = Some (Inr (cs, rend, None), ctr0, v0)
      \<and> registry (name st) = Some command \<and> command cs (args st) cx v0 = Some (Inl e, v1)
    \<longrightarrow> (\<forall>post. runPipeline (cpre @ st # post) registry cx cinput v =
           Some (Inl e, [0 ..< Suc (length cpre)], v1)))
   \<and> (runPipeline_loop registry cx 0 cps (case cinput of None \<Rightarrow> emptyStream | Some i \<Rightarrow> i) False [] v
        = Some (Inr (cs, rend, cat), ctr, v0)
      \<and> collectItems cs v0 = (Inl e, v1)
    \<longrightarrow> runPipeline cps registry cx cinput v = Some (Inl e, ctr, v1))
   \<and> (runPipelineInternal (stages this) (sdk_ctx this) (or_empty_array initialInput) u = (Inl err, tr, u')
    \<longrightarrow> Lobster_run this initialInput u =
          (\<lparr>ok = False, status = ''error'', lobster_output = [], requiresApproval = None,
            error = Some \<lparr>error_type = ''runtime_error'', message = error_message err\<rparr>\<rparr>, tr, u'))
   \<and> (decodeToken token = Inr payload \<and> payload \<noteq> JNull \<and> resume_index payload = Some resumeIndex
      \<and> runPipelineInternal (slice (stages this) resumeIndex) (sdk_ctx this)
            (Value (Some (nullish (get_prop payload ''items'') (JArr [])))) u = (Inl err, tr, u')
    \<longrightarrow> Lobster_resume this token True u =
          Some (Inr \<lparr>ok = False, status = ''error'', lobster_output = [], requiresApproval = None,
                     error = Some \<lparr>error_type = ''runtime_error'', message = error_message err\<rparr>\<rparr>, tr, u'))"
proof (intro conjI impI allI)
  fix post
  assume a: "runPipelineInternal_loop cx 0 pre (toAsyncIterable (or_empty_array input)) [] w
        = (Inr (s, None), tr0, w0)
      \<and> run s cx w0 = (Inl e, w1)"
  then have p: "runPipelineInternal_loop cx 0 pre (toAsyncIterable (or_empty_array input)) [] w
        = (Inr (s, None), tr0, w0)" by simp
  from a show "runPipelineInternal (pre @ StageObj run # post) cx input w =
           (Inl e, [0 ..< Suc (length pre)], w1)"
    by (simp add: runPipelineInternal_def internal_prefix(2) [OF p])
next
  fix post
  assume a: "runPipelineInternal_loop cx 0 pre (toAsyncIterable (or_empty_array input)) [] w
        = (Inr (s, None), tr0, w0)
      \<and> collectItems s w0 = (Inr its, w1) \<and> f its cx w1 = (Inl e, w2)"
  then have p: "runPipelineInternal_loop cx 0 pre (toAsyncIterable (or_empty_array input)) [] w
        = (Inr (s, None), tr0, w0)" by simp
  from a show "runPipelineInternal (pre @ Fn f # post) cx input w =
           (Inl e, [0 ..< Suc (length pre)], w2)"
    by (simp add: runPipelineInternal_def internal_prefix(2) [OF p])
next
  fix post
  assume a: "runPipelineInternal_loop cx 0 pre (toAsyncIterable (or_empty_array input)) [] w
        = (Inr (s, None), tr0, w0)
      \<and> collectItems s w0 = (Inl e, w1)"
  then have p: "runPipelineInternal_loop cx 0 pre (toAsyncIterable (or_empty_array input)) [] w
        = (Inr (s, None), tr0, w0)" by simp
  from a show "runPipelineInternal (pre @ Fn f # post) cx input w =
           (Inl e, [0 ..< length pre], w1)"
    by (simp add: runPipelineInternal_def internal_prefix(2) [OF p])
next
  assume "runPipelineInternal_loop cx 0 sts (toAsyncIterable (or_empty_array input)) [] w
        = (Inr (s, at), tr, w0)
      \<and> collectItems s w0 = (Inl e, w1)"
  then show "runPipelineInternal sts cx input w = (Inl e, tr, w1)"
    by (simp add: runPipelineInternal_def)
next
  assume a: "runPipelineInternal sts cx input w = (Inl e, tr, w')"
  obtain r tr1 w1' where l: "runPipelineInternal_loop cx 0 sts (toAsyncIterable (or_empty_array input)) [] w
        = (r, tr1, w1')"
    by (cases "runPipelineInternal_loop cx 0 sts (toAsyncIterable (or_empty_array input)) [] w")
  show "\<exists>n \<le> length sts. tr = [0 ..< n]"
  proof (cases r)
    case (Inl e1)
    with a l have "tr1 = tr" by (simp add: runPipelineInternal_def)
    with internal_loop_error_trace [OF l [unfolded Inl]] show ?thesis by simp
  next
    case (Inr sa)
    obtain s' at' where sa: "sa = (s', at')" by (cases sa)
    from a l Inr sa have t: "tr1 = tr" by (auto simp: runPipelineInternal_def split: prod.splits sum.splits)
    from internal_loop_trace [OF l [unfolded Inr sa]] t show ?thesis
    proof (cases at')
      case None
      with internal_loop_trace [OF l [unfolded Inr sa]] t show ?thesis by auto
    next
      case (Some k)
      with internal_loop_trace [OF l [unfolded Inr sa]] t
      obtain i where "i < length sts" "tr = [0 ..< Suc i]" by auto
      then show ?thesis by (intro exI [of _ "Suc i"]) simp
    qed
  qed
next
  fix post
  assume a: "runPipeline_loop registry cx 0 cpre (case cinput of None \<Rightarrow> emptyStream | Some i \<Rightarrow> i) False [] v
        = Some (Inr (cs, rend, None), ctr0, v0)
      \<and> registry (name st) = Some command \<and> command cs (args st) cx v0 = Some (Inl e, v1)"
  then have p: "runPipeline_loop registry cx 0 cpre (case cinput of None \<Rightarrow> emptyStream | Some i \<Rightarrow> i) False [] v
        = Some (Inr (cs, rend, None), ctr0, v0)" by simp
  from a show "runPipeline (cpre @ st # post) registry cx cinput v =
           Some (Inl e, [0 ..< Suc (length cpre)], v1)"
    by (simp add: runPipeline_def cli_prefix(2) [OF p])
next
  assume "runPipeline_loop registry cx 0 cps (case cinput of None \<Rightarrow> emptyStream | Some i \<Rightarrow> i) False [] v
        = Some (Inr (cs, rend, cat), ctr, v0)
      \<and> collectItems cs v0 = (Inl e, v1)"
  then show "runPipeline cps registry cx cinput v = Some (Inl e, ctr, v1)"
    by (simp add: runPipeline_def)
next
  assume "runPipelineInternal (stages this) (sdk_ctx this) (or_empty_array initialInput) u = (Inl err, tr, u')"
  then show "Lobster_run this initialInput u =
          (\<lparr>ok = False, status = ''error'', lobster_output = [], requiresApproval = None,
            error = Some \<lparr>error_type = ''runtime_error'', message = error_message err\<rparr>\<rparr>, tr, u')"
    by (simp add: Lobster_run_def error_result_def)
next
  assume "decodeToken token = Inr payload \<and> payload \<noteq> JNull \<and> resume_index payload = Some resumeIndex
      \<and> runPipelineInternal (slice (stages this) resumeIndex) (sdk_ctx this)
            (Value (Some (nullish (get_prop payload ''items'') (JArr [])))) u = (Inl err, tr, u')"
  then show "Lobster_resume this token True u =
          Some (Inr \<lparr>ok = False, status = ''error'', lobster_output = [], requiresApproval = None,
                     error = Some \<lparr>error_type = ''runtime_error'', message = error_message err\<rparr>\<rparr>, tr, u')"
    by (simp add: Lobster_resume_def error_result_def Let_def)
qed

theorem stage_error_ends_run_witness:
  "runPipelineInternal ([genBoom] @ gate # [failing]) demo_ctx (Value None) [] = (Inl (Error ''boom''), [0, 1], [])
   \<and> runPipelineInternal ([emit_one] @ failing # [gate]) demo_ctx (Value None) []
       = (Inl (Error ''boom''), [0, 1], [''emit'', ''fail''])
   \<and> runPipelineInternal ([genBoom] @ emit_one # [gate]) demo_ctx (Value None) [] = (Inl (Error ''boom''), [0], [])
   \<and> runPipelineInternal [emit_one, genBoom] demo_ctx (Value None) [] = (Inl (Error ''boom''), [0, 1], [''emit''])
   \<and> (\<exists>n \<le> 2. [0, 1] = [0 ..< n])
   \<and> runPipeline ([\<lparr>name = ''one'', args = []\<rparr>] @ \<lparr>name = ''fail'', args = []\<rparr> # [\<lparr>name = ''approve'', args = []\<rparr>])
        demo_registry demo_ctx None [] = Some (Inl (Error ''boom''), [0, 1], ''one;fail;'')
   \<and> runPipeline [\<lparr>name = ''late'', args = []\<rparr>] demo_registry demo_ctx None []
       = Some (Inl (Error ''late''), [0], ''late;'')
   \<and> Lobster_run (demo_workflow\<lparr>stages := [failing]\<rparr>) (Value None) [] =
        (\<lparr>ok = False, status = ''error'', lobster_output = [], requiresApproval = None,
          error = Some \<lparr>error_type = ''runtime_error'', message = ''boom''\<rparr>\<rparr>, [0], [''fail''])
   \<and> Lobster_resume demo_workflow ''eyJyZXN1bWVBdEluZGV4Ijo0fQ'' True [] =
        Some (Inr \<lparr>ok = False, status = ''error'', lobster_output = [], requiresApproval = None,
                   error = Some \<lparr>error_type = ''runtime_error'', message = ''boom''\<rparr>\<rparr>, [0], [''fail''])"
proof -
  let ?a = "JObj [(''a'', JNum 1)]"
  let ?one = "\<lparr>name = ''one'', args = []\<rparr>"
  let ?fail = "\<lparr>name = ''fail'', args = []\<rparr>"
  let ?late = "\<lparr>name = ''late'', args = []\<rparr>"
  let ?boom = "Stream (Throw (Error ''boom'')) :: log stream"
  let ?wf1 = "demo_workflow\<lparr>stages := [failing]\<rparr>"
  let ?tok = "''eyJyZXN1bWVBdEluZGV4Ijo0fQ''"
  let ?payload = "JObj [(''resumeAtIndex'', JNum 4)]"
  define run where "run = (case gate of StageObj r \<Rightarrow> r)"
  have gate: "gate = StageObj run" by (simp add: run_def gate_def approve_def)
  define f where "f = (case failing of Fn h \<Rightarrow> h)"
  have f: "failing = Fn f" by (simp add: f_def failing_def)
  define f1 where "f1 = (case emit_one of Fn h \<Rightarrow> h)"
  have f1: "emit_one = Fn f1" by (simp add: f1_def emit_one_def)
  have pg: "runPipelineInternal_loop demo_ctx 0 [genBoom] (toAsyncIterable (or_empty_array (Value None))) [] ([] :: log)
              = (Inr (?boom, None), [0], [])"
    by (simp add: genBoom_def toAsyncIterable_def result_halt_def result_output_def)
  have p1: "runPipelineInternal_loop demo_ctx 0 [emit_one] (toAsyncIterable (or_empty_array (Value None))) [] []
              = (Inr (asStream [?a], None), [0], [''emit''])"
    by (simp add: emit_one_def toAsyncIterable_def emptyStream_def result_halt_def result_output_def)
  have p2: "runPipelineInternal_loop demo_ctx 0 [emit_one, genBoom] (toAsyncIterable (or_empty_array (Value None))) [] []
              = (Inr (?boom, None), [0, 1], [''emit''])"
    by (simp add: emit_one_def genBoom_def toAsyncIterable_def emptyStream_def result_halt_def result_output_def)
  have h1: "run ?boom demo_ctx [] = (Inl (Error ''boom''), [])"
    by (simp add: run_def gate_def approve_def)
  have a: "runPipelineInternal ([genBoom] @ gate # [failing]) demo_ctx (Value None) [] = (Inl (Error ''boom''), [0, 1], [])"
    using stage_error_ends_run [where cx = demo_ctx and pre = "[genBoom]" and input = "Value None"
        and w = "[]" and s = ?boom and ?tr0.0 = "[0]" and ?w0.0 = "[]" and run = run
        and e = "Error ''boom''" and ?w1.0 = "[]", THEN conjunct1, rule_format, where post = "[failing]"] pg h1
    by (simp add: gate upt_conv_Cons)
  have h2: "collectItems (asStream [?a]) [''emit''] = (Inr [?a], [''emit''])
      \<and> f [?a] demo_ctx [''emit''] = (Inl (Error ''boom''), [''emit'', ''fail''])"
    by (simp add: f_def failing_def)
  have b: "runPipelineInternal ([emit_one] @ failing # [gate]) demo_ctx (Value None) []
       = (Inl (Error ''boom''), [0, 1], [''emit'', ''fail''])"
    using stage_error_ends_run [where cx = demo_ctx and pre = "[emit_one]" and input = "Value None"
        and w = "[]" and s = "asStream [?a]" and ?tr0.0 = "[0]" and ?w0.0 = "[''emit'']" and f = f
        and its = "[?a]" and ?w1.0 = "[''emit'']" and e = "Error ''boom''" and ?w2.0 = "[''emit'', ''fail'']",
        THEN conjunct2, THEN conjunct1, rule_format, where post = "[gate]"] p1 h2
    by (simp add: f upt_conv_Cons)
  have h3: "collectItems ?boom [] = (Inl (Error ''boom''), [])" by simp
  have c: "runPipelineInternal ([genBoom] @ emit_one # [gate]) demo_ctx (Value None) [] = (Inl (Error ''boom''), [0], [])"
    using stage_error_ends_run [where cx = demo_ctx and pre = "[genBoom]" and input = "Value None"
        and w = "[]" and s = ?boom and ?tr0.0 = "[0]" and ?w0.0 = "[]" and f = f1
        and e = "Error ''boom''" and ?w1.0 = "[]",
        THEN conjunct2, THEN conjunct2, THEN conjunct1, rule_format, where post = "[gate]"] pg h3
    by (simp add: f1 upt_conv_Cons)
  have h4: "collectItems ?boom [''emit''] = (Inl (Error ''boom''), [''emit''])" by simp
  have d: "runPipelineInternal [emit_one, genBoom] demo_ctx (Value None) [] = (Inl (Error ''boom''), [0, 1], [''emit''])"
    using stage_error_ends_run [where cx = demo_ctx and sts = "[emit_one, genBoom]" and input = "Value None"
        and w = "[]" and s = ?boom and at = None and tr = "[0, 1]" and ?w0.0 = "[''emit'']"
        and e = "Error ''boom''" and ?w1.0 = "[''emit'']",
        THEN conjunct2, THEN conjunct2, THEN conjunct2, THEN conjunct1, rule_format] p2 h4
    by simp
  have e: "\<exists>n \<le> 2. [0, 1] = [0 ..< n]"
    using stage_error_ends_run [where cx = demo_ctx and sts = "[emit_one, genBoom]" and input = "Value None"
        and w = "[]" and e = "Error ''boom''" and tr = "[0, 1]" and w' = "[''emit'']",
        THEN conjunct2, THEN conjunct2, THEN conjunct2, THEN conjunct2, THEN conjunct1, rule_format] d
    by (simp add: numeral_2_eq_2)
  have q1: "runPipeline_loop demo_registry demo_ctx 0 [?one] (case None of None \<Rightarrow> emptyStream | Some i \<Rightarrow> i) False [] []
              = Some (Inr (Stream (Yield (JNum 1) emptyStream), False, None), [0], ''one;'')"
    by (simp add: demo_registry_def one_command_def result_halt_def result_output_def result_rendered_def)
  have k1: "demo_registry (name ?fail) = Some failing_command
      \<and> failing_command (Stream (Yield (JNum 1) emptyStream)) (args ?fail) demo_ctx ''one;''
          = Some (Inl (Error ''boom''), ''one;fail;'')"
    by (simp add: demo_registry_def failing_command_def)
  have g: "runPipeline ([?one] @ ?fail # [\<lparr>name = ''approve'', args = []\<rparr>])
        demo_registry demo_ctx None [] = Some (Inl (Error ''boom''), [0, 1], ''one;fail;'')"
    using stage_error_ends_run [where cx = demo_ctx and registry = demo_registry and cpre = "[?one]"
        and cinput = None and v = "[]" and cs = "Stream (Yield (JNum 1) emptyStream)" and rend = False
        and ?ctr0.0 = "[0]" and ?v0.0 = "''one;''" and st = ?fail and command = failing_command
        and e = "Error ''boom''" and ?v1.0 = "''one;fail;''",
        THEN conjunct2, THEN conjunct2, THEN conjunct2, THEN conjunct2, THEN conjunct2, THEN conjunct1,
        rule_format, where post = "[\<lparr>name = ''approve'', args = []\<rparr>]"] q1 k1
    by (simp add: upt_conv_Cons)
  have q2: "runPipeline_loop demo_registry demo_ctx 0 [?late] (case None of None \<Rightarrow> emptyStream | Some i \<Rightarrow> i) False [] []
              = Some (Inr (Stream (Throw (Error ''late'')), False, None), [0], ''late;'')
      \<and> collectItems (Stream (Throw (Error ''late''))) ''late;'' = (Inl (Error ''late''), ''late;'')"
    by (simp add: demo_registry_def late_command_def result_halt_def result_output_def result_rendered_def)
  have h: "runPipeline [?late] demo_registry demo_ctx None [] = Some (Inl (Error ''late''), [0], ''late;'')"
    using stage_error_ends_run [where cx = demo_ctx and registry = demo_registry and cps = "[?late]"
        and cinput = None and v = "[]" and cs = "Stream (Throw (Error ''late''))" and rend = False
        and cat = None and ctr = "[0]" and ?v0.0 = "''late;''" and e = "Error ''late''" and ?v1.0 = "''late;''",
        THEN conjunct2, THEN conjunct2, THEN conjunct2, THEN conjunct2, THEN conjunct2, THEN conjunct2,
        THEN conjunct1, rule_format] q2
    by simp
  have h8: "runPipelineInternal (stages ?wf1) (sdk_ctx ?wf1) (or_empty_array (Value None)) [] =
              (Inl (Error ''boom''), [0], [''fail''])"
    by (simp add: runPipelineInternal_def failing_def demo_workflow_def toAsyncIterable_def emptyStream_def)
  have i: "Lobster_run ?wf1 (Value None) [] =
        (\<lparr>ok = False, status = ''error'', lobster_output = [], requiresApproval = None,
          error = Some \<lparr>error_type = ''runtime_error'', message = ''boom''\<rparr>\<rparr>, [0], [''fail''])"
    using stage_error_ends_run [where this = ?wf1 and initialInput = "Value None" and u = "[]"
        and err = "Error ''boom''" and tr = "[0]" and u' = "[''fail'']",
        THEN conjunct2, THEN conjunct2, THEN conjunct2, THEN conjunct2, THEN conjunct2, THEN conjunct2,
        THEN conjunct2, THEN conjunct1, rule_format] h8
    by simp
  have h9: "decodeToken ?tok = Inr ?payload \<and> ?payload \<noteq> JNull \<and> resume_index ?payload = Some 4
      \<and> runPipelineInternal (slice (stages demo_workflow) 4) (sdk_ctx demo_workflow)
            (Value (Some (nullish (get_prop ?payload ''items'') (JArr [])))) [] = (Inl (Error ''boom''), [0], [''fail''])"
    by (simp add: decode_resume_at_4 resume_index_def slice_def demo_workflow_def runPipelineInternal_def
        failing_def toAsyncIterable_def)
  have j: "Lobster_resume demo_workflow ?tok True [] =
        Some (Inr \<lparr>ok = False, status = ''error'', lobster_output = [], requiresApproval = None,
                   error = Some \<lparr>error_type = ''runtime_error'', message = ''boom''\<rparr>\<rparr>, [0], [''fail''])"
    using stage_error_ends_run [where this = demo_workflow and token = ?tok and payload = ?payload
        and resumeIndex = 4 and u = "[]" and err = "Error ''boom''" and tr = "[0]" and u' = "[''fail'']",
        THEN conjunct2, THEN conjunct2, THEN conjunct2, THEN conjunct2, THEN conjunct2, THEN conjunct2,
        THEN conjunct2, THEN conjunct2, rule_format] h9
    by simp
  from a b c d e g h i j show ?thesis by simp
qed

text \<open>
  Claim C8 as it is written says that the error reaches the caller of \<open>run\<close> and \<open>resume\<close>, and
  that no later stage executes. Here the last stage of the example workflow raises \<open>boom\<close> and
  \<open>resume\<close> returns a result; and in the pipeline of \<open>genBoom\<close>, \<open>sideThenRead\<close> and \<open>failing\<close>
  the error is raised in the body of the first stage, when the second stage, which has been
  called and has written its line, reads its input.
\<close>

theorem stage_error_caught_or_late:
  "Lobster_resume demo_workflow ''eyJyZXN1bWVBdEluZGV4Ijo0fQ'' True [] =
     Some (Inr \<lparr>ok = False, status = ''error'', lobster_output = [], requiresApproval = None,
                error = Some \<lparr>error_type = ''runtime_error'', message = ''boom''\<rparr>\<rparr>, [0], [''fail''])
   \<and> runPipelineInternal [genBoom, sideThenRead, failing] demo_ctx (Value None) []
       = (Inl (Error ''boom''), [0, 1], [''side''])
   \<and> runPipeline [\<lparr>name = ''late'', args = []\<rparr>, \<lparr>name = ''one'', args = []\<rparr>] demo_registry demo_ctx None []
       = Some (Inl (Error ''late''), [0, 1], ''late;one;'')"
  by code_simp

section \<open>The index a token carries\<close>

lemma slice_next: "slice xs (int i + 1) = drop (Suc i) xs"
proof -
  have "nat (int i + 1) = Suc i" by simp
  then show ?thesis by (simp add: slice_def)
qed

lemma halt_payload_serializable:
  "serializable_opt its \<Longrightarrow> serializable_opt pr \<Longrightarrow> serializable (halt_payload n its pr)"
  by (cases its; cases pr)
     (simp_all add: halt_payload_def object_literal_def serializable_opt_def List.map_filter_simps)

lemma halt_payload_props:
  "get_prop (halt_payload n its pr) ''stageIndex'' = Some (JNum n)"
  "get_prop (halt_payload n its pr) ''resumeAtIndex'' = Some (JNum (n + 1))"
  "get_prop (halt_payload n its pr) ''items'' = its"
  "halt_payload n its pr \<noteq> JNull"
  by (cases its; cases pr; simp add: halt_payload_def object_literal_def List.map_filter_simps)+

lemma halt_payload_decode:
  "serializable_opt its \<Longrightarrow> serializable_opt pr
   \<Longrightarrow> decodeToken (encodeToken (halt_payload n its pr)) = Inr (halt_payload n its pr)"
  by (rule decode_encode) (rule halt_payload_serializable)

lemma halted_place:
  assumes "runPipelineInternal sts cx input w = (Inr result, tr, w')" "haltedAt result = Some i"
  shows "i < length sts \<and> (\<exists>run. sts ! i = StageObj run)"
proof -
  from assms(1) obtain s at w0 where
    l: "runPipelineInternal_loop cx 0 sts (toAsyncIterable (or_empty_array input)) [] w = (Inr (s, at), tr, w0)"
    and r: "haltedAt result = at"
    by (auto simp: runPipelineInternal_def split: prod.splits sum.splits)
  from internal_loop_trace [OF l] r assms(2) show ?thesis by auto
qed

lemma Lobster_run_token:
  assumes "Lobster_run this initialInput w = (res, tr, w')" "requiresApproval res = Some a"
    and "runPipelineInternal (stages this) (sdk_ctx this) (or_empty_array initialInput) w
           = (Inr result, tr, w')"
    and "haltedAt result = Some i"
  shows "resumeToken a = encodeToken (halt_payload (int i) (approval_items a) (approval_prompt a))"
proof (cases "is_approval_halt result")
  case False
  with assms show ?thesis by (auto simp: Lobster_run_def)
next
  case True
  with assms show ?thesis by (auto simp: Lobster_run_def Let_def halt_payload_def)
qed

lemma resume_with_issued:
  assumes d: "decodeToken token = Inr (halt_payload (int i) its pr)"
  shows "Lobster_resume this token True w =
     (case runPipelineInternal (drop (Suc i) (stages this)) (sdk_ctx this)
             (Value (Some (nullish its (JArr [])))) w of
        (Inl err, tr, w') \<Rightarrow> Some (Inr (error_result err), tr, w')
      | (Inr result, tr, w') \<Rightarrow>
          if is_approval_halt result then
            Some (Inr \<lparr>ok = True, status = ''needs_approval'', lobster_output = [],
                       requiresApproval =
                         Some \<lparr>approval_prompt = get_prop (items result ! 0) ''prompt'',
                               approval_items = get_prop (items result ! 0) ''items'',
                               resumeToken = encodeToken
                                 (halt_payload (int (Suc i) + (case haltedAt result of None \<Rightarrow> 0 | Some j \<Rightarrow> int j))
                                    (get_prop (items result ! 0) ''items'')
                                    (get_prop (items result ! 0) ''prompt''))\<rparr>,
                       error = None\<rparr>, tr, w')
          else Some (Inr \<lparr>ok = True, status = ''ok'', lobster_output = items result,
                          requiresApproval = None, error = None\<rparr>, tr, w'))"
proof -
  define k where "k = int (Suc i)"
  have ri: "resume_index (halt_payload (int i) its pr) = Some k"
    by (simp add: resume_index_def halt_payload_props k_def)
  have sl: "slice (stages this) k = drop (Suc i) (stages this)"
    using slice_next [of "stages this" i] by (simp add: k_def add.commute)
  show ?thesis
    unfolding k_def [symmetric] Lobster_resume_def
    by (simp add: d ri halt_payload_props sl Let_def split: prod.splits sum.splits)
       (simp add: halt_payload_def)
qed

text \<open>
  Claim C3. Every token issued by a halt of \<open>run\<close>, or by a halt of a \<open>resume\<close> in a chain
  that starts from \<open>run\<close>, is issued at the place \<open>i\<close> of a stage object of the workflow and
  decodes to a payload with \<open>stageIndex = i\<close>, \<open>resumeAtIndex = i + 1\<close> and the items of the
  approval request, where \<open>i\<close> is the place of the halting stage in the full list of stages
  (for a later halt: its place among the stages that remained, moved by the place after
  the earlier halt). And \<open>resume\<close> with that token alone, in any world, calls the stages and
  has the effects of the run of exactly the stages after place \<open>i\<close> on those items.
\<close>

theorem resume_index_invariant:
  assumes "issued this token i its"
  shows "i < length (stages this) \<and> (\<exists>run. stages this ! i = StageObj run)
         \<and> (\<exists>payload. decodeToken token = Inr payload
               \<and> get_prop payload ''stageIndex'' = Some (JNum (int i))
               \<and> get_prop payload ''resumeAtIndex'' = Some (JNum (int i + 1))
               \<and> get_prop payload ''items'' = its)
         \<and> (\<forall>w. case Lobster_resume this token True w of
                   None \<Rightarrow> False
                 | Some (r, tr, w') \<Rightarrow>
                     (\<exists>x. runPipelineInternal (drop (Suc i) (stages this)) (sdk_ctx this)
                            (Value (Some (nullish its (JArr [])))) w = (x, tr, w')))"
proof -
  have main: "i < length (stages this) \<and> (\<exists>run. stages this ! i = StageObj run)
      \<and> (\<exists>pr. decodeToken token = Inr (halt_payload (int i) its pr))"
    using assms
  proof (induction rule: issued.induct)
    case (by_run initialInput w res tr w' a result i)
    from Lobster_run_token [OF by_run(1,2,3,4)]
    have t: "resumeToken a = encodeToken (halt_payload (int i) (approval_items a) (approval_prompt a))" .
    have "decodeToken (resumeToken a) = Inr (halt_payload (int i) (approval_items a) (approval_prompt a))"
      unfolding t using by_run(5,6) by (rule halt_payload_decode)
    with halted_place [OF by_run(3,4)] show ?case by blast
  next
    case (by_resume token i its w res tr w' a result j)
    then obtain pr where d: "decodeToken token = Inr (halt_payload (int i) its pr)" by blast
    from halted_place [OF by_resume(4,5)]
    have j: "j < length (drop (Suc i) (stages this))" "\<exists>run. drop (Suc i) (stages this) ! j = StageObj run"
      by simp_all
    from j(1) have lt: "Suc i + j < length (stages this)" by simp
    with j(2) have so: "\<exists>run. stages this ! (Suc i + j) = StageObj run" by simp
    define n where "n = Suc i + j"
    have e: "int (Suc i) + int j = int n" by (simp add: n_def)
    have ah: "is_approval_halt result"
      using by_resume(2,3,4) unfolding resume_with_issued [OF d] by (auto split: if_splits)
    have t: "resumeToken a = encodeToken (halt_payload (int n) (approval_items a) (approval_prompt a))"
      using by_resume(2,3,4,5) ah unfolding resume_with_issued [OF d] e [symmetric] by auto
    have "decodeToken (resumeToken a) = Inr (halt_payload (int n) (approval_items a) (approval_prompt a))"
      unfolding t using by_resume(6,7) by (rule halt_payload_decode)
    with lt so show ?case unfolding n_def by blast
  qed
  then obtain pr where d: "decodeToken token = Inr (halt_payload (int i) its pr)" by blast
  have "\<forall>w. case Lobster_resume this token True w of
                   None \<Rightarrow> False
                 | Some (r, tr, w') \<Rightarrow>
                     (\<exists>x. runPipelineInternal (drop (Suc i) (stages this)) (sdk_ctx this)
                            (Value (Some (nullish its (JArr [])))) w = (x, tr, w'))"
    unfolding resume_with_issued [OF d] by (auto split: prod.splits sum.splits)
  with main d show ?thesis by (auto simp: halt_payload_props)
qed

theorem resume_index_invariant_witness:
  "issued demo_workflow
     ''eyJwcm90b2NvbFZlcnNpb24iOjEsInYiOjEsInN0YWdlSW5kZXgiOjMsInJlc3VtZUF0SW5kZXgiOjQsIml0ZW1zIjpbeyJ0YWdnZWQiOnsiYSI6MX19XSwicHJvbXB0Ijoib2s_In0''
     3 (Some (JArr [JObj [(''tagged'', JObj [(''a'', JNum 1)])]]))
   \<and> 3 < length (stages demo_workflow)
   \<and> (\<exists>run. stages demo_workflow ! 3 = StageObj run)
   \<and> (\<exists>payload. decodeToken
          ''eyJwcm90b2NvbFZlcnNpb24iOjEsInYiOjEsInN0YWdlSW5kZXgiOjMsInJlc3VtZUF0SW5kZXgiOjQsIml0ZW1zIjpbeyJ0YWdnZWQiOnsiYSI6MX19XSwicHJvbXB0Ijoib2s_In0''
             = Inr payload
          \<and> get_prop payload ''stageIndex'' = Some (JNum 3)
          \<and> get_prop payload ''resumeAtIndex'' = Some (JNum 4)
          \<and> get_prop payload ''items'' = Some (JArr [JObj [(''tagged'', JObj [(''a'', JNum 1)])]]))
   \<and> (case Lobster_resume demo_workflow
          ''eyJwcm90b2NvbFZlcnNpb24iOjEsInYiOjEsInN0YWdlSW5kZXgiOjMsInJlc3VtZUF0SW5kZXgiOjQsIml0ZW1zIjpbeyJ0YWdnZWQiOnsiYSI6MX19XSwicHJvbXB0Ijoib2s_In0''
          True [] of
         None \<Rightarrow> False
       | Some (r, tr, w') \<Rightarrow> tr = [0] \<and> w' = [''fail''])"
proof -
  let ?t1 = "''eyJwcm90b2NvbFZlcnNpb24iOjEsInYiOjEsInN0YWdlSW5kZXgiOjEsInJlc3VtZUF0SW5kZXgiOjIsIml0ZW1zIjpbeyJhIjoxfV0sInByb21wdCI6Im9rPyJ9''"
  let ?t2 = "''eyJwcm90b2NvbFZlcnNpb24iOjEsInYiOjEsInN0YWdlSW5kZXgiOjMsInJlc3VtZUF0SW5kZXgiOjQsIml0ZW1zIjpbeyJ0YWdnZWQiOnsiYSI6MX19XSwicHJvbXB0Ijoib2s_In0''"
  let ?a = "JObj [(''a'', JNum 1)]"
  let ?ta = "JObj [(''tagged'', ?a)]"
  let ?a1 = "\<lparr>approval_prompt = Some (JStr ''ok?''), approval_items = Some (JArr [?a]), resumeToken = ?t1\<rparr>"
  let ?a2 = "\<lparr>approval_prompt = Some (JStr ''ok?''), approval_items = Some (JArr [?ta]), resumeToken = ?t2\<rparr>"
  let ?r1 = "\<lparr>ok = True, status = ''needs_approval'', lobster_output = [],
             requiresApproval = Some ?a1, error = None\<rparr>"
  let ?r2 = "\<lparr>ok = True, status = ''needs_approval'', lobster_output = [],
             requiresApproval = Some ?a2, error = None\<rparr>"
  let ?p1 = "\<lparr>items = [JObj [(''type'', JStr ''approval_request''), (''prompt'', JStr ''ok?''),
                                 (''items'', JArr [?a]), (''itemCount'', JNum 1)]],
             halted = True, haltedAt = Some 1\<rparr>"
  let ?p2 = "\<lparr>items = [JObj [(''type'', JStr ''approval_request''), (''prompt'', JStr ''ok?''),
                                 (''items'', JArr [?ta]), (''itemCount'', JNum 1)]],
             halted = True, haltedAt = Some 1\<rparr>"
  have run: "Lobster_run demo_workflow (Value None) [] = (?r1, [0, 1], [''emit''])"
    by code_simp
  have rp1: "runPipelineInternal (stages demo_workflow) (sdk_ctx demo_workflow) (or_empty_array (Value None)) []
               = (Inr ?p1, [0, 1], [''emit''])"
    by code_simp
  have "issued demo_workflow (resumeToken ?a1) 1 (approval_items ?a1)"
    by (rule issued.by_run [where a = ?a1 and i = 1, OF run _ rp1]) (simp_all add: serializable_opt_def)
  then have i1: "issued demo_workflow ?t1 1 (Some (JArr [?a]))" by simp
  have res: "Lobster_resume demo_workflow ?t1 True [] = Some (Inr ?r2, [0, 1], [''tag'', ''tag end''])"
    by code_simp
  have rp2: "runPipelineInternal (drop (Suc 1) (stages demo_workflow)) (sdk_ctx demo_workflow)
               (Value (Some (nullish (Some (JArr [?a])) (JArr [])))) []
               = (Inr ?p2, [0, 1], [''tag'', ''tag end''])"
    by code_simp
  have "issued demo_workflow (resumeToken ?a2) (Suc 1 + 1) (approval_items ?a2)"
    by (rule issued.by_resume [where a = ?a2 and j = 1, OF i1 res _ rp2]) (simp_all add: serializable_opt_def)
  then have i2: "issued demo_workflow ?t2 3 (Some (JArr [?ta]))" by (simp add: numeral_3_eq_3)
  have rp3: "runPipelineInternal (drop (Suc 3) (stages demo_workflow)) (sdk_ctx demo_workflow)
               (Value (Some (nullish (Some (JArr [?ta])) (JArr [])))) []
               = (Inl (Error ''boom''), [0], [''fail''])"
    by code_simp
  from resume_index_invariant [OF i2] have
    c: "3 < length (stages demo_workflow)" "\<exists>run. stages demo_workflow ! 3 = StageObj run"
       "\<exists>payload. decodeToken ?t2 = Inr payload
          \<and> get_prop payload ''stageIndex'' = Some (JNum 3)
          \<and> get_prop payload ''resumeAtIndex'' = Some (JNum 4)
          \<and> get_prop payload ''items'' = Some (JArr [?ta])"
    and r: "\<forall>w. case Lobster_resume demo_workflow ?t2 True w of
                   None \<Rightarrow> False
                 | Some (r, tr, w') \<Rightarrow>
                     (\<exists>x. runPipelineInternal (drop (Suc 3) (stages demo_workflow)) (sdk_ctx demo_workflow)
                            (Value (Some (nullish (Some (JArr [?ta])) (JArr [])))) w = (x, tr, w'))"
    by simp_all
  from r [rule_format, of "[]"] rp3
  have "case Lobster_resume demo_workflow ?t2 True [] of
         None \<Rightarrow> False
       | Some (r, tr, w') \<Rightarrow> tr = [0] \<and> w' = [''fail'']"
    by (auto split: option.splits)
  with i2 c show ?thesis by simp
qed

section \<open>\<open>llm_task.invoke\<close>: run state, retries and the cache key\<close>



lemma derive_call_fields:
  assumes "derive_call P a ev = Inr with_input"
  shows "c_cacheKey (with_input xs) =
           computeCacheKey P (c_prompt (with_input xs)) (c_model (with_input xs))
             (c_schemaVersion (with_input xs)) (c_artifactHashes (with_input xs))
             (c_userOutputSchema (with_input xs))"
  using assms unfolding derive_call_def Let_def
  by (auto split: if_splits sum.splits)

lemma extractPrompt_metadata: "extractPrompt (a\<lparr>arg_metadata_json := m\<rparr>) = extractPrompt a"
  by (simp add: extractPrompt_def split: option.splits list.splits)

lemma derive_call_Inr:
  assumes "derive_call P a ev = Inr k"
  shows "c_prompt (k xs) = extractPrompt a"
    and "c_model (k xs) = trim (env_or (arg_model a) (ev ''LLM_TASK_MODEL''))"
    and "c_schemaVersion (k xs) =
           (case arg_schema_version a of
              Some s \<Rightarrow> if s \<noteq> [] then trim s
                        else (case ev ''LLM_TASK_SCHEMA_VERSION'' of
                                Some e \<Rightarrow> if e \<noteq> [] then trim e else ''v1''
                              | None \<Rightarrow> ''v1'')
            | None \<Rightarrow> (case ev ''LLM_TASK_SCHEMA_VERSION'' of
                          Some e \<Rightarrow> if e \<noteq> [] then trim e else ''v1''
                        | None \<Rightarrow> ''v1''))"
    and "parseJsonObject (arg_output_schema a) ''llm_task.invoke --output-schema''
           = Inr (c_userOutputSchema (k xs))"
    and "\<exists>provided. parseJsonArray (arg_artifacts_json a) ''llm_task.invoke --artifacts-json'' = Inr provided
           \<and> c_artifactHashes (k xs) = map (hashArtifact P) (map normalizeArtifact (xs @ provided))"
  using assms unfolding derive_call_def Let_def
  by (auto split: if_splits sum.splits)



text \<open>
  Claim C6 at \<open>N = 1\<close>. The service answers the first request with a result that fails the
  output contract and every later one with a result that satisfies it. With
  \<open>max-validation-retries = 0\<close> (which is \<open>N - 1\<close>) the claim asks for a failure after the
  first attempt. The command sends a second request and succeeds, reporting
  \<open>attemptCount = 2\<close>: the loop gives up only when \<open>attempt > maxValidationRetries + 1\<close>, one
  attempt later than the number of retries allows. Against a service whose results never
  satisfy the contract it sends two requests before it fails.
\<close>

theorem retry_bound_off_by_one:
  "arg_max_validation_retries demo_args = Some 0
   \<and> (case llmTaskInvokeCommand_run demo_platform emptyStream demo_args demo_ctx demo_world of
         (Inr (Some r), w') \<Rightarrow>
            (case collectItems (result_output (Some r)) w' of
               (Inr out, w'') \<Rightarrow> map (\<lambda>item. get_prop item ''attemptCount'') out = [Some (JNum 2)]
             | _ \<Rightarrow> False)
            \<and> length (requests w') = 2
       | _ \<Rightarrow> False)
   \<and> (case llmTaskInvokeCommand_run
              (demo_platform\<lparr>fetch := (\<lambda>rs req. Inr \<lparr>res_ok = True, res_status = 200, res_statusText = ''OK'',
                   res_text = ''{\"ok\":true,\"result\":{\"output\":{\"data\":{\"foo\":1}}}}''\<rparr>)\<rparr>)
              emptyStream demo_args demo_ctx demo_world of
         (Inl e, w') \<Rightarrow>
            e = Error ''llm_task.invoke output failed schema validation: / must have required property decision''
            \<and> length (requests w') = 2
       | _ \<Rightarrow> False)"
  by code_simp

lemma filter_unique_key:
  fixes zs :: "(string \<times> 'a) list"
  assumes "distinct (map fst zs)" "k \<in> set zs"
  shows "filter (\<lambda>x. fst k = fst x) zs = [k]"
  using assms
proof (induction zs)
  case Nil
  then show ?case by simp
next
  case (Cons z zs)
  show ?case
  proof (cases "z = k")
    case True
    have "filter (\<lambda>x. fst k = fst x) zs = []"
      using Cons.prems(1) True by (auto simp: filter_empty_conv image_iff)
    with True show ?thesis by simp
  next
    case False
    with Cons.prems have kz: "k \<in> set zs" by simp
    then have "fst z \<noteq> fst k" using Cons.prems(1) by (auto simp: image_iff)
    with Cons.IH kz Cons.prems(1) show ?thesis by auto
  qed
qed

lemma sort_key_fst_unique:
  fixes xs ys :: "(string \<times> 'a) list"
  assumes "distinct (map fst xs)" "mset xs = mset ys"
  shows "sort_key fst xs = sort_key fst ys"
proof (rule properties_for_sort_key)
  show "mset (sort_key fst ys) = mset xs" using assms(2) by simp
  show "sorted (map fst (sort_key fst ys))" by simp
  have dy: "distinct (map fst ys)"
  proof -
    have "mset (map fst ys) = mset (map fst xs)" using assms(2) by (metis mset_map)
    then show ?thesis using assms(1) by (metis mset_eq_imp_distinct_iff)
  qed
  have se: "set xs = set ys" using assms(2) by (rule mset_eq_setD)
  fix k assume "k \<in> set (sort_key fst ys)"
  then have ky: "k \<in> set ys" by simp
  have "mset (map fst (sort_key fst ys)) = mset (map fst ys)" by simp
  then have ds: "distinct (map fst (sort_key fst ys))" using dy by (metis mset_eq_imp_distinct_iff)
  have "filter (\<lambda>x. fst k = fst x) (sort_key fst ys) = [k]"
    using ky ds by (intro filter_unique_key) simp_all
  moreover have "filter (\<lambda>x. fst k = fst x) xs = [k]"
    using ky assms(1) se by (intro filter_unique_key) simp_all
  ultimately show "filter (\<lambda>x. fst k = fst x) (sort_key fst ys) = filter (\<lambda>x. fst k = fst x) xs"
    by simp
qed

lemma canonical_member_order:
  assumes "distinct (map fst kvs)" "mset kvs = mset kvs'"
  shows "canonical (JObj kvs) = canonical (JObj kvs')"
proof -
  let ?f = "\<lambda>(k, v). (k, canonical v)"
  have "map fst (map ?f kvs) = map fst kvs" by (induction kvs) auto
  with assms(1) have d: "distinct (map fst (map ?f kvs))" by (simp only:)
  have m: "mset (map ?f kvs) = mset (map ?f kvs')" using assms(2) by (metis mset_map)
  from sort_key_fst_unique [OF d m] show ?thesis by simp
qed

text \<open>
  Claim C7. The cache key that \<open>run\<close> derives is \<open>computeCacheKey\<close> of the prompt, the model,
  the schema version, the artifact hashes and the output contract of the call, so two calls
  that agree on these five have the same key, whatever else differs (arguments,
  environment, metadata). In particular, changing \<open>--metadata-json\<close> of a call in any way that
  is still accepted changes none of the five and leaves the key as it is. And two output
  contracts that are objects with the same members in different orders give the same key.
\<close>

theorem cache_key_ignores_metadata:
  "(derive_call P a1 ev1 = Inr k1 \<and> derive_call P a2 ev2 = Inr k2
      \<and> c_prompt (k1 xs1) = c_prompt (k2 xs2) \<and> c_model (k1 xs1) = c_model (k2 xs2)
      \<and> c_schemaVersion (k1 xs1) = c_schemaVersion (k2 xs2)
      \<and> c_artifactHashes (k1 xs1) = c_artifactHashes (k2 xs2)
      \<and> c_userOutputSchema (k1 xs1) = c_userOutputSchema (k2 xs2)
    \<longrightarrow> c_cacheKey (k1 xs1) = c_cacheKey (k2 xs2))
   \<and> (derive_call P a ev = Inr k \<and> derive_call P (a\<lparr>arg_metadata_json := m\<rparr>) ev = Inr k'
    \<longrightarrow> c_cacheKey (k' xs) = c_cacheKey (k xs) \<and> c_prompt (k' xs) = c_prompt (k xs)
        \<and> c_model (k' xs) = c_model (k xs) \<and> c_schemaVersion (k' xs) = c_schemaVersion (k xs)
        \<and> c_artifactHashes (k' xs) = c_artifactHashes (k xs)
        \<and> c_userOutputSchema (k' xs) = c_userOutputSchema (k xs))
   \<and> (distinct (map fst kvs) \<and> mset kvs = mset kvs'
    \<longrightarrow> computeCacheKey P prompt model version hashes (Some (JObj kvs))
        = computeCacheKey P prompt model version hashes (Some (JObj kvs')))"
proof (intro conjI impI)
  assume h: "derive_call P a1 ev1 = Inr k1 \<and> derive_call P a2 ev2 = Inr k2
      \<and> c_prompt (k1 xs1) = c_prompt (k2 xs2) \<and> c_model (k1 xs1) = c_model (k2 xs2)
      \<and> c_schemaVersion (k1 xs1) = c_schemaVersion (k2 xs2)
      \<and> c_artifactHashes (k1 xs1) = c_artifactHashes (k2 xs2)
      \<and> c_userOutputSchema (k1 xs1) = c_userOutputSchema (k2 xs2)"
  then have "derive_call P a1 ev1 = Inr k1" "derive_call P a2 ev2 = Inr k2" by simp_all
  from derive_call_fields [OF this(1), of xs1] derive_call_fields [OF this(2), of xs2] h
  show "c_cacheKey (k1 xs1) = c_cacheKey (k2 xs2)" by simp
next
  assume "derive_call P a ev = Inr k \<and> derive_call P (a\<lparr>arg_metadata_json := m\<rparr>) ev = Inr k'"
  then have d: "derive_call P a ev = Inr k" and d': "derive_call P (a\<lparr>arg_metadata_json := m\<rparr>) ev = Inr k'"
    by simp_all
  from derive_call_Inr(1) [OF d, of xs] derive_call_Inr(1) [OF d', of xs]
  have p: "c_prompt (k' xs) = c_prompt (k xs)" by (simp add: extractPrompt_metadata)
  from derive_call_Inr(2) [OF d, of xs] derive_call_Inr(2) [OF d', of xs]
  have mo: "c_model (k' xs) = c_model (k xs)" by simp
  from derive_call_Inr(3) [OF d, of xs] derive_call_Inr(3) [OF d', of xs]
  have sv: "c_schemaVersion (k' xs) = c_schemaVersion (k xs)" by simp
  from derive_call_Inr(4) [OF d, of xs] derive_call_Inr(4) [OF d', of xs]
  have os: "c_userOutputSchema (k' xs) = c_userOutputSchema (k xs)" by simp
  from derive_call_Inr(5) [OF d, of xs] derive_call_Inr(5) [OF d', of xs]
  have ah: "c_artifactHashes (k' xs) = c_artifactHashes (k xs)" by auto
  from derive_call_fields [OF d, of xs] derive_call_fields [OF d', of xs] p mo sv os ah
  have ck: "c_cacheKey (k' xs) = c_cacheKey (k xs)" by simp
  show "c_cacheKey (k' xs) = c_cacheKey (k xs)" by (rule ck)
  show "c_prompt (k' xs) = c_prompt (k xs)" by (rule p)
  show "c_model (k' xs) = c_model (k xs)" by (rule mo)
  show "c_schemaVersion (k' xs) = c_schemaVersion (k xs)" by (rule sv)
  show "c_artifactHashes (k' xs) = c_artifactHashes (k xs)" by (rule ah)
  show "c_userOutputSchema (k' xs) = c_userOutputSchema (k xs)" by (rule os)
next
  assume "distinct (map fst kvs) \<and> mset kvs = mset kvs'"
  then have "canonical (JObj kvs) = canonical (JObj kvs')" by (intro canonical_member_order) simp_all
  then show "computeCacheKey P prompt model version hashes (Some (JObj kvs))
        = computeCacheKey P prompt model version hashes (Some (JObj kvs'))"
    by (simp add: computeCacheKey_def stableStringify_def)
qed

theorem cache_key_ignores_metadata_witness:
  "(case (derive_call demo_platform (demo_args\<lparr>arg_metadata_json := Some ''{\"a\":1,\"b\":2}''\<rparr>) Map.empty,
          derive_call demo_platform (demo_args\<lparr>arg_metadata_json := Some ''{\"b\":2,\"a\":1}'',
                                                   arg_url := Some ''http://other''\<rparr>) Map.empty) of
      (Inr k1, Inr k2) \<Rightarrow>
         c_cacheKey (k1 []) = c_cacheKey (k2 []) \<and> c_metadataObject (k1 []) \<noteq> c_metadataObject (k2 [])
         \<and> c_baseUrl (k1 []) \<noteq> c_baseUrl (k2 [])
    | _ \<Rightarrow> False)
   \<and> (case (derive_call demo_platform demo_args Map.empty,
            derive_call demo_platform (demo_args\<lparr>arg_metadata_json := Some ''{\"z\":[1.5]}''\<rparr>) Map.empty) of
        (Inr k, Inr k') \<Rightarrow>
           c_cacheKey (k' [JStr ''x'']) = c_cacheKey (k [JStr ''x''])
           \<and> c_metadataObject (k' [JStr ''x'']) \<noteq> c_metadataObject (k [JStr ''x''])
      | _ \<Rightarrow> False)
   \<and> computeCacheKey demo_platform ''p'' ''m'' ''v1'' [] (Some (JObj [(''a'', JNum 1), (''b'', JNum 2)]))
       = computeCacheKey demo_platform ''p'' ''m'' ''v1'' [] (Some (JObj [(''b'', JNum 2), (''a'', JNum 1)]))"
proof -
  let ?a1 = "demo_args\<lparr>arg_metadata_json := Some ''{\"a\":1,\"b\":2}''\<rparr>"
  let ?a2 = "demo_args\<lparr>arg_metadata_json := Some ''{\"b\":2,\"a\":1}'', arg_url := Some ''http://other''\<rparr>"
  let ?a3 = "demo_args\<lparr>arg_metadata_json := Some ''{\"z\":[1.5]}''\<rparr>"
  have "case derive_call demo_platform ?a1 Map.empty of
          Inl e \<Rightarrow> False
        | Inr k \<Rightarrow> k [] = demo_call\<lparr>c_metadataObject := Some (JObj [(''a'', JNum 1), (''b'', JNum 2)])\<rparr>"
    by code_simp
  then obtain k1 where k1: "derive_call demo_platform ?a1 Map.empty = Inr k1"
      "k1 [] = demo_call\<lparr>c_metadataObject := Some (JObj [(''a'', JNum 1), (''b'', JNum 2)])\<rparr>"
    by (auto split: sum.splits)
  have "case derive_call demo_platform ?a2 Map.empty of
          Inl e \<Rightarrow> False
        | Inr k \<Rightarrow> k [] = demo_call\<lparr>c_metadataObject := Some (JObj [(''b'', JNum 2), (''a'', JNum 1)]),
                                      c_baseUrl := ''http://other''\<rparr>"
    by code_simp
  then obtain k2 where k2: "derive_call demo_platform ?a2 Map.empty = Inr k2"
      "k2 [] = demo_call\<lparr>c_metadataObject := Some (JObj [(''b'', JNum 2), (''a'', JNum 1)]),
                           c_baseUrl := ''http://other''\<rparr>"
    by (auto split: sum.splits)
  have "case derive_call demo_platform demo_args Map.empty of
          Inl e \<Rightarrow> False
        | Inr k \<Rightarrow> c_metadataObject (k [JStr ''x'']) = None"
    by code_simp
  then obtain k where k: "derive_call demo_platform demo_args Map.empty = Inr k"
      "c_metadataObject (k [JStr ''x'']) = None"
    by (auto split: sum.splits)
  have "case derive_call demo_platform ?a3 Map.empty of
          Inl e \<Rightarrow> False
        | Inr k \<Rightarrow> c_metadataObject (k [JStr ''x'']) = Some (JObj [(''z'', JArr [JFloat ''1.5''])])"
    by code_simp
  then obtain k' where k': "derive_call demo_platform ?a3 Map.empty = Inr k'"
      "c_metadataObject (k' [JStr ''x'']) = Some (JObj [(''z'', JArr [JFloat ''1.5''])])"
    by (auto split: sum.splits)
  have a: "c_cacheKey (k1 []) = c_cacheKey (k2 [])"
    using cache_key_ignores_metadata [where P = demo_platform and ?a1.0 = ?a1 and ?ev1.0 = Map.empty
        and ?k1.0 = k1 and ?a2.0 = ?a2 and ?ev2.0 = Map.empty and ?k2.0 = k2 and ?xs1.0 = "[]" and ?xs2.0 = "[]",
        THEN conjunct1, rule_format] k1 k2
    by simp
  have b: "c_cacheKey (k' [JStr ''x'']) = c_cacheKey (k [JStr ''x''])"
    using cache_key_ignores_metadata [where P = demo_platform and a = demo_args and ev = Map.empty
        and k = k and m = "Some ''{\"z\":[1.5]}''" and k' = k' and xs = "[JStr ''x'']",
        THEN conjunct2, THEN conjunct1, rule_format] k(1) k'(1)
    by simp
  have c: "computeCacheKey demo_platform ''p'' ''m'' ''v1'' [] (Some (JObj [(''a'', JNum 1), (''b'', JNum 2)]))
       = computeCacheKey demo_platform ''p'' ''m'' ''v1'' [] (Some (JObj [(''b'', JNum 2), (''a'', JNum 1)]))"
    using cache_key_ignores_metadata [where kvs = "[(''a'', JNum 1), (''b'', JNum 2)]"
        and kvs' = "[(''b'', JNum 2), (''a'', JNum 1)]" and P = demo_platform and prompt = "''p''"
        and model = "''m''" and version = "''v1''" and hashes = "[]",
        THEN conjunct2, THEN conjunct2, rule_format]
    by simp
  from a b c k1 k2 k k' show ?thesis by (simp add: demo_call_def)
qed

end
